theory Spec2Isabelle
  imports Main "HOL-Library.Multiset"
begin

section \<open>JavaScript strings and values\<close>

text \<open>
  A JavaScript string is modelled as a \<open>string\<close>: the list of its code units, each a
  \<open>char\<close> in the range U+0000 .. U+00FF.  \<open>toLowerCase\<close> and \<open>trim\<close> are the
  JavaScript operations on that range.
\<close>

definition toLowerChar :: "char \<Rightarrow> char" where
  "toLowerChar c =
     (let n = (of_char c :: nat)
      in if (65 \<le> n \<and> n \<le> 90) \<or> (192 \<le> n \<and> n \<le> 222 \<and> n \<noteq> 215)
         then char_of (n + 32) else c)"

definition toLowerCase :: "string \<Rightarrow> string" where
  "toLowerCase s = map toLowerChar s"

definition isWhiteSpace :: "char \<Rightarrow> bool" where
  "isWhiteSpace c = ((of_char c :: nat) \<in> {9, 10, 11, 12, 13, 32, 160})"

definition trim :: "string \<Rightarrow> string" where
  "trim s = rev (dropWhile isWhiteSpace (rev (dropWhile isWhiteSpace s)))"

fun startsWith :: "string \<Rightarrow> string \<Rightarrow> bool" where
  "startsWith s [] = True"
| "startsWith [] (c # cs) = False"
| "startsWith (x # xs) (c # cs) = (x = c \<and> startsWith xs cs)"

text \<open>\<open>includes_str s sub\<close> is \<open>s.includes(sub)\<close>: \<open>sub\<close> occurs in \<open>s\<close> as a contiguous run.\<close>

fun includes_str :: "string \<Rightarrow> string \<Rightarrow> bool" where
  "includes_str [] sub = (sub = [])"
| "includes_str (x # xs) sub = (startsWith (x # xs) sub \<or> includes_str xs sub)"

text \<open>\<open>a || b\<close> on strings: the empty string is falsy.\<close>

definition orElse :: "string \<Rightarrow> string \<Rightarrow> string" where
  "orElse a b = (if a = [] then b else a)"

text \<open>\<open>a || null\<close> on a cell: the empty string becomes \<open>null\<close>.\<close>

definition orNull :: "string \<Rightarrow> string option" where
  "orNull a = (if a = [] then None else Some a)"

text \<open>Truthiness of a nullable string: \<open>null\<close>, \<open>undefined\<close> and \<open>''\<close> are falsy.\<close>

definition truthy :: "string option \<Rightarrow> bool" where
  "truthy v = (case v of None \<Rightarrow> False | Some s \<Rightarrow> s \<noteq> [])"

text \<open>The text a template literal inserts for a nullable string.\<close>

definition templateText :: "string option \<Rightarrow> string" where
  "templateText v = (case v of None \<Rightarrow> ''null'' | Some s \<Rightarrow> s)"

subsection \<open>Numbers\<close>

text \<open>
  The numbers that occur as article ids are integer-valued doubles or an infinity.
  \<open>toNumber z\<close> is the Number value for the mathematical integer \<open>z\<close>: the nearest
  integer with at most 53 significant bits, ties to the even one, and an infinity when that
  has more than 1024 bits.  Below \<open>2 ^ 53\<close> it is \<open>z\<close> itself.
\<close>

datatype number = Num int | PlusInfinity | MinusInfinity

function bitLength :: "int \<Rightarrow> nat" where
  "bitLength n = (if n \<le> 0 then 0 else Suc (bitLength (n div 2)))"
  by pat_completeness auto
termination
  by (relation "measure nat") auto

declare bitLength.simps [simp del]

definition roundMagnitude :: "int \<Rightarrow> int" where
  "roundMagnitude n =
     (if bitLength n \<le> 53 then n
      else (let shift = bitLength n - 53;
                q = n div 2 ^ shift;
                r = n mod 2 ^ shift;
                half = 2 ^ (shift - 1)
            in (if r > half \<or> (r = half \<and> odd q) then q + 1 else q) * 2 ^ shift))"

definition toNumber :: "int \<Rightarrow> number" where
  "toNumber z =
     (let m = roundMagnitude \<bar>z\<bar>
      in if bitLength m > 1024 then (if z < 0 then MinusInfinity else PlusInfinity)
         else Num (if z < 0 then - m else m))"

text \<open>\<open>x + 1\<close> and \<open>x >= y\<close> on such numbers.\<close>

definition plusOne :: "number \<Rightarrow> number" where
  "plusOne x = (case x of Num z \<Rightarrow> toNumber (z + 1) | PlusInfinity \<Rightarrow> PlusInfinity | MinusInfinity \<Rightarrow> MinusInfinity)"

fun greaterEq :: "number \<Rightarrow> number \<Rightarrow> bool" where
  "greaterEq (Num a) (Num b) = (a \<ge> b)"
| "greaterEq PlusInfinity y = True"
| "greaterEq x MinusInfinity = True"
| "greaterEq (Num a) PlusInfinity = False"
| "greaterEq MinusInfinity (Num b) = False"
| "greaterEq MinusInfinity PlusInfinity = False"

subsection \<open>parseInt\<close>

text \<open>
  \<open>parseInt(s)\<close> with no radix: leading white space is skipped, then an optional sign,
  then an optional \<open>0x\<close>/\<open>0X\<close> prefix selecting radix 16, then the longest run of digits
  of the radix.  No digit gives \<open>NaN\<close>, modelled as \<open>None\<close>; otherwise the result is the
  Number value of the signed digit run, so a run from \<open>2 ^ 53\<close> on is rounded and a very
  long run gives an infinity.  \<open>-0\<close> is modelled as \<open>Num 0\<close>: the only use of the result
  is under \<open>||\<close>, where both are falsy.
\<close>

definition digitValue :: "char \<Rightarrow> nat option" where
  "digitValue c =
     (let n = (of_char c :: nat)
      in if 48 \<le> n \<and> n \<le> 57 then Some (n - 48)
         else if 97 \<le> n \<and> n \<le> 102 then Some (n - 87)
         else if 65 \<le> n \<and> n \<le> 70 then Some (n - 55)
         else None)"

definition isDigitOf :: "nat \<Rightarrow> char \<Rightarrow> bool" where
  "isDigitOf radix c = (case digitValue c of None \<Rightarrow> False | Some d \<Rightarrow> d < radix)"

definition digitsValue :: "nat \<Rightarrow> string \<Rightarrow> int" where
  "digitsValue radix ds =
     foldl (\<lambda>acc c. acc * int radix + (case digitValue c of None \<Rightarrow> 0 | Some d \<Rightarrow> int d)) 0 ds"

definition parseDigits :: "nat \<Rightarrow> string \<Rightarrow> int option" where
  "parseDigits radix s =
     (let ds = takeWhile (isDigitOf radix) s
      in if ds = [] then None else Some (digitsValue radix ds))"

definition parseUnsigned :: "string \<Rightarrow> int option" where
  "parseUnsigned s =
     (if startsWith s ''0x'' \<or> startsWith s ''0X'' then parseDigits 16 (drop 2 s)
      else parseDigits 10 s)"

definition parseInt :: "string \<Rightarrow> number option" where
  "parseInt s =
     (let t = dropWhile isWhiteSpace s
      in case t of
           [] \<Rightarrow> None
         | c # cs \<Rightarrow>
            if c = CHR ''-'' then map_option (\<lambda>n. toNumber (- n)) (parseUnsigned cs)
            else if c = CHR ''+'' then map_option toNumber (parseUnsigned cs)
            else map_option toNumber (parseUnsigned t))"

section \<open>Category normalisation (google-sheets.ts)\<close>

text \<open>The alias table of \<open>mapToValidCategory\<close>, in the order of the object literal.\<close>

definition categoryMap :: "(string \<times> string) list" where
  "categoryMap =
    [(''global'', ''global''),
     (''world'', ''global''),
     (''international'', ''global''),
     (''us market'', ''global''),
     (''dow'', ''global''),
     (''nasdaq'', ''global''),
     (''s&p'', ''global''),
     (''nifty'', ''nifty''),
     (''market'', ''nifty''),
     (''markets'', ''nifty''),
     (''index'', ''nifty''),
     (''sensex'', ''nifty''),
     (''banknifty'', ''nifty''),
     (''bank nifty'', ''nifty''),
     (''warrant'', ''warrant''),
     (''warrants'', ''warrant''),
     (''call warrant'', ''warrant''),
     (''put warrant'', ''warrant''),
     (''breakout'', ''breakout''),
     (''breakouts'', ''breakout''),
     (''technical'', ''breakout''),
     (''chart'', ''breakout''),
     (''research report'', ''research_report''),
     (''research_report'', ''research_report''),
     (''researchreport'', ''research_report''),
     (''research'', ''research_report''),
     (''report'', ''research_report''),
     (''analysis'', ''research_report''),
     (''analyst'', ''research_report''),
     (''movers'', ''movers''),
     (''mover'', ''movers''),
     (''most active'', ''movers''),
     (''mostactive'', ''movers''),
     (''gainers'', ''movers''),
     (''losers'', ''movers''),
     (''top gainers'', ''movers''),
     (''top losers'', ''movers''),
     (''orderwins'', ''order_wins''),
     (''order wins'', ''order_wins''),
     (''order_wins'', ''order_wins''),
     (''orderwin'', ''order_wins''),
     (''order win'', ''order_wins''),
     (''wins'', ''order_wins''),
     (''deal'', ''order_wins''),
     (''contract'', ''order_wins''),
     (''ath'', ''ath''),
     (''all time high'', ''ath''),
     (''all-time high'', ''ath''),
     (''record high'', ''ath''),
     (''new high'', ''ath''),
     (''results'', ''results''),
     (''result'', ''results''),
     (''earnings'', ''results''),
     (''quarterly'', ''results''),
     (''q1'', ''results''),
     (''q2'', ''results''),
     (''q3'', ''results''),
     (''q4'', ''results''),
     (''ipo'', ''ipo''),
     (''ipos'', ''ipo''),
     (''initial public offering'', ''ipo''),
     (''public offering'', ''ipo''),
     (''listing'', ''ipo''),
     (''sme ipo'', ''sme ipo''),
     (''smeipo'', ''sme ipo''),
     (''sme'', ''sme ipo''),
     (''small medium enterprises'', ''sme ipo''),
     (''mcx'', ''others''),
     (''commodity'', ''others''),
     (''commodities'', ''others''),
     (''gold'', ''others''),
     (''silver'', ''others''),
     (''crude'', ''others''),
     (''oil'', ''others''),
     (''others'', ''others''),
     (''other'', ''others''),
     (''general'', ''others''),
     (''news'', ''others''),
     (''policy'', ''others''),
     (''rbi'', ''others''),
     (''government'', ''others'')]"

text \<open>
  \<open>categoryMap\<close> is an ordinary object, so \<open>categoryMap[k]\<close> also finds the members
  inherited from \<open>Object.prototype\<close>.  Such a member is a function or an object, never a
  string, and is truthy.
\<close>

definition objectPrototypeKeys :: "string list" where
  "objectPrototypeKeys =
    [''constructor'', ''__defineGetter__'', ''__defineSetter__'', ''hasOwnProperty'',
     ''__lookupGetter__'', ''__lookupSetter__'', ''isPrototypeOf'', ''propertyIsEnumerable'',
     ''toString'', ''valueOf'', ''__proto__'', ''toLocaleString'']"

datatype category_value = Name string | Inherited string

text \<open>\<open>categoryMap[k]\<close>; \<open>None\<close> is \<open>undefined\<close>.\<close>

definition categoryMap_get :: "string \<Rightarrow> category_value option" where
  "categoryMap_get k =
     (case map_of categoryMap k of
        Some v \<Rightarrow> Some (Name v)
      | None \<Rightarrow> if k \<in> set objectPrototypeKeys then Some (Inherited k) else None)"

definition truthyValue :: "category_value option \<Rightarrow> bool" where
  "truthyValue r = (case r of None \<Rightarrow> False | Some (Name v) \<Rightarrow> v \<noteq> [] | Some (Inherited k) \<Rightarrow> True)"

definition partialMatch :: "string \<Rightarrow> (string \<times> string) option" where
  "partialMatch rawCategory =
     find (\<lambda>(key, val). includes_str rawCategory key \<or> includes_str key rawCategory) categoryMap"

definition mapToValidCategory :: "string \<Rightarrow> category_value" where
  "mapToValidCategory rawCategory =
     (let partial = (case partialMatch rawCategory of
                       Some (key, val) \<Rightarrow> Name val
                     | None \<Rightarrow> Name ''others'')
      in case categoryMap_get rawCategory of
           Some v \<Rightarrow> if truthyValue (Some v) then v else partial
         | None \<Rightarrow> partial)"

text \<open>The normalisation step of \<open>fetchArticles\<close>: lower-case, trim, then map.\<close>

definition normalizeCategory :: "string \<Rightarrow> category_value" where
  "normalizeCategory label = mapToValidCategory (trim (toLowerCase label))"

section \<open>Articles\<close>

text \<open>
  The \<open>Article\<close> objects of the server.  \<open>createdAt\<close> is the time value of the
  \<open>Date\<close> in milliseconds, \<open>None\<close> in an optional field is \<open>null\<close>, \<open>undefined\<close> or
  an absent property, and \<open>viewCount\<close> is the property the in-memory store adds to an
  article.
\<close>

record article =
  articleId :: number
  title :: string
  content :: string
  category :: string
  stockSymbol :: "string option"
  stockPrice :: "string option"
  priceChange :: "string option"
  exchange :: "string option"
  imageUrl :: "string option"
  timeAgo :: string
  isPremium :: bool
  createdAt :: int
  source :: "string option"
  sentiment :: "string option"
  priceTarget :: "string option"
  viewCount :: "nat option"

datatype js_error = TypeError | RequestFailed string

subsection \<open>Image selection (image-logic)\<close>

text \<open>
  \<open>getArticleImage\<close> starts with \<open>(article.category || '').toLowerCase()\<close>, which throws
  a \<open>TypeError\<close> when the category is not a string.  On strings it picks an entry of a
  fixed pool as a pure function of title, content, category, stock symbol and id; that
  choice is the parameter \<open>selectImage\<close>.  Its result is \<open>None\<close> where the pool index is
  \<open>NaN\<close> (an infinite id) and the entry is \<open>undefined\<close>.
\<close>

type_synonym image_fn = "string \<Rightarrow> string \<Rightarrow> string \<Rightarrow> string option \<Rightarrow> number \<Rightarrow> string option"

definition getArticleImage ::
  "image_fn \<Rightarrow> string \<Rightarrow> string \<Rightarrow> category_value \<Rightarrow> string option \<Rightarrow> number \<Rightarrow> js_error + string option" where
  "getArticleImage selectImage title' content' category' stockSymbol' id' =
     (case category' of
        Inherited k \<Rightarrow> Inl TypeError
      | Name c \<Rightarrow> Inr (selectImage title' content' c stockSymbol' id'))"

section \<open>Content synthesis in the mapper (google-sheets.ts)\<close>

definition contentTemplates :: "string \<Rightarrow> string \<Rightarrow> (string \<times> string list) list" where
  "contentTemplates title' category' =
    [(''nifty'',
       [title' @ '' reflects the current market sentiment with significant trading activity. The index movement indicates strong investor confidence amid favorable market conditions.'',
        ''Market analysts are closely watching '' @ title' @ '' as it impacts broader market trends. Technical indicators suggest continued momentum in the '' @ category' @ '' segment.'',
        title' @ '' represents a key development in the equity markets. Institutional investors are showing increased interest in this market segment.'']),
     (''trending'',
       [title' @ '' has caught the attention of market participants today. This development could influence sector-wide performance and investor sentiment.'',
        ''Breaking: '' @ title' @ '' is making headlines across financial markets. Expert analysis suggests this could be a significant market catalyst.'',
        title' @ '' emerges as a key market story with potential long-term implications for investors and traders.'']),
     (''breakout'',
       [title' @ '' represents a significant breakout pattern in technical analysis. Chart patterns indicate potential for continued upward momentum.'',
        ''Technical breakout alert: '' @ title' @ '' has crossed key resistance levels. Volume analysis supports the sustainability of this move.'',
        title' @ '' shows strong breakout characteristics with robust trading volumes. This could signal the beginning of a new trend.'']),
     (''research_report'',
       [''Latest research report highlights: '' @ title' @ ''. Detailed fundamental analysis reveals key investment insights and recommendations.'',
        title' @ '' - Comprehensive research analysis covering financial metrics, growth prospects, and market positioning.'',
        ''Research update: '' @ title' @ '' provides in-depth sector analysis and stock-specific recommendations for informed investment decisions.'']),
     (''default'',
       [title' @ '' represents an important development in the financial markets. Market dynamics and investor sentiment continue to evolve.'',
        title' @ '' captures current market attention with significant implications for sector performance and trading strategies.'',
        ''Latest update: '' @ title' @ '' reflects ongoing market trends and provides insights into current investment opportunities.''])]"

definition marketInsights :: "string list" where
  "marketInsights =
    [''Trading volumes remain robust with sustained institutional interest.'',
     ''Market volatility presents both opportunities and challenges for investors.'',
     ''Sectoral rotation continues as investors seek value across different segments.'',
     ''Risk-on sentiment prevails amid favorable macroeconomic conditions.'',
     ''Technical charts indicate potential for further momentum in this direction.'']"

text \<open>
  \<open>contentTemplates[category] || contentTemplates.default\<close>, then
  \<open>templates[articleIndex % templates.length]\<close>.  A category naming a member inherited from
  \<open>Object.prototype\<close> selects that member instead of a list; indexing it gives
  \<open>undefined\<close>, which the concatenation renders as the text \<open>undefined\<close>.
\<close>

definition baseContentOf :: "string \<Rightarrow> string \<Rightarrow> nat \<Rightarrow> string" where
  "baseContentOf title' category' articleIndex =
     (case map_of (contentTemplates title' category') category' of
        Some templates \<Rightarrow> templates ! (articleIndex mod length templates)
      | None \<Rightarrow>
          if category' \<in> set objectPrototypeKeys then ''undefined''
          else (case map_of (contentTemplates title' category') ''default'' of
                  Some templates \<Rightarrow> templates ! (articleIndex mod length templates)
                | None \<Rightarrow> ''undefined''))"

text \<open>The stock arguments are the cells \<open>row[4]\<close>, \<open>row[5]\<close>, \<open>row[6]\<close>; an absent cell is falsy like \<open>''\<close>.\<close>

definition generateUniqueContent ::
  "string \<Rightarrow> string \<Rightarrow> string \<Rightarrow> string \<Rightarrow> string \<Rightarrow> nat \<Rightarrow> string" where
  "generateUniqueContent title' category' stockSymbol' stockPrice' priceChange' articleIndex =
     (let baseContent = baseContentOf title' category' articleIndex;
          insight = marketInsights ! (articleIndex mod length marketInsights);
          stockDetails =
            (if stockSymbol' \<noteq> [] \<and> stockPrice' \<noteq> []
             then '' '' @ stockSymbol' @ '' is currently trading at '' @ stockPrice'
                  @ (if priceChange' \<noteq> [] then '' with a movement of '' @ priceChange' else [])
                  @ '' in the current trading session.''
             else [])
      in baseContent @ '' '' @ insight @ stockDetails
         @ '' Market participants continue to monitor these developments for strategic positioning.'')"

section \<open>The record mapper: fetchArticles (google-sheets.ts)\<close>

text \<open>
  A row is the list of its cells.  \<open>row[k]\<close> beyond the end is \<open>undefined\<close>; every use of
  a cell below is a truthiness test or the left side of \<open>||\<close>, where \<open>undefined\<close> and
  \<open>''\<close> behave alike, so \<open>cell\<close> returns \<open>''\<close> there.
\<close>

definition cell :: "string list \<Rightarrow> nat \<Rightarrow> string" where
  "cell row k = (if k < length row then row ! k else [])"

text \<open>The filter of \<open>fetchArticles\<close>: \<open>row.length >= 3 && row[0] && row[1]\<close>.\<close>

definition usableRow :: "string list \<Rightarrow> bool" where
  "usableRow row = (length row \<ge> 3 \<and> cell row 0 \<noteq> [] \<and> cell row 1 \<noteq> [])"

text \<open>
  The callback of \<open>rows.filter(...).map(...)\<close>.  \<open>index\<close> is the position among the rows
  that passed the filter; \<open>clock index\<close> is the time \<open>new Date()\<close> reads while that row is
  mapped.  When the category is an inherited member, the callback ends in the \<open>TypeError\<close> of
  \<open>getArticleImage\<close>, and nothing it computed before is kept.
\<close>

definition mapRow :: "image_fn \<Rightarrow> (nat \<Rightarrow> int) \<Rightarrow> string list \<Rightarrow> nat \<Rightarrow> js_error + article" where
  "mapRow selectImage clock row index =
     (let rawCategory = trim (toLowerCase (cell row 3))
      in case mapToValidCategory rawCategory of
           Inherited k \<Rightarrow> Inl TypeError
         | Name cat \<Rightarrow>
             (let content0 = cell row 2;
                  isGenericContent =
                    (includes_str content0 ''Domestic indices extended gains'' \<or>
                     includes_str content0 ''Technical analysts highlight'' \<or>
                     trim content0 = []);
                  content1 =
                    (if isGenericContent
                     then generateUniqueContent (orElse (cell row 1) ''Untitled'') cat
                            (cell row 4) (cell row 5) (cell row 6) index
                     else content0);
                  articleId1 =
                    (case parseInt (cell row 0) of
                       Some n \<Rightarrow> if n \<noteq> Num 0 then n else Num (int index + 1)
                     | None \<Rightarrow> Num (int index + 1));
                  title1 = orElse (cell row 1) ''Untitled'';
                  stockSymbol1 = orNull (cell row 4)
              in case getArticleImage selectImage title1 content1 (Name cat) stockSymbol1 articleId1 of
                   Inl e \<Rightarrow> Inl e
                 | Inr url \<Rightarrow>
                     Inr \<lparr> articleId = articleId1,
                           title = title1,
                           content = content1,
                           category = cat,
                           stockSymbol = stockSymbol1,
                           stockPrice = orNull (cell row 5),
                           priceChange = orNull (cell row 6),
                           exchange = orNull (cell row 7),
                           imageUrl = url,
                           timeAgo = orElse (cell row 9) ''Just now'',
                           isPremium = (toLowerCase (cell row 10) = ''true''),
                           createdAt = clock index,
                           source = orNull (cell row 11),
                           sentiment = orNull (cell row 13),
                           priceTarget = orNull (cell row 12),
                           viewCount = None \<rparr>))"

text \<open>
  The spreadsheet request either throws or answers; \<open>response.data.values\<close> may be
  absent (\<open>None\<close>), which \<open>|| []\<close> turns into no rows.
\<close>

datatype sheets_response = Throws js_error | Values "string list list option"

text \<open>Mapping the rows in order; the first callback that throws ends the whole \<open>map\<close>.\<close>

fun mapRows :: "image_fn \<Rightarrow> (nat \<Rightarrow> int) \<Rightarrow> string list list \<Rightarrow> nat \<Rightarrow> js_error + article list" where
  "mapRows selectImage clock [] index = Inr []"
| "mapRows selectImage clock (row # rows) index =
     (case mapRow selectImage clock row index of
        Inl e \<Rightarrow> Inl e
      | Inr a \<Rightarrow>
          (case mapRows selectImage clock rows (Suc index) of
             Inl e \<Rightarrow> Inl e
           | Inr as \<Rightarrow> Inr (a # as)))"

text \<open>
  \<open>fetchArticles\<close>: the outcome of the promise, \<open>Inl\<close> for a rejection.  The
  \<open>try\<close>/\<open>catch\<close> around the whole body logs any error and returns \<open>[]\<close>.
\<close>

definition fetchArticles :: "image_fn \<Rightarrow> (nat \<Rightarrow> int) \<Rightarrow> sheets_response \<Rightarrow> js_error + article list" where
  "fetchArticles selectImage clock response =
     (case response of
        Throws e \<Rightarrow> Inr []
      | Values vs \<Rightarrow>
          (let rows = (case vs of None \<Rightarrow> [] | Some rs \<Rightarrow> rs)
           in case mapRows selectImage clock (filter usableRow rows) 0 of
                Inl e \<Rightarrow> Inr []
              | Inr as \<Rightarrow> Inr as))"

section \<open>The in-memory store (storage.ts)\<close>

text \<open>
  A JavaScript \<open>Map\<close> keeps its entries in insertion order; \<open>set\<close> on a present key
  replaces the value in place, on a new key appends.
\<close>

type_synonym article_map = "(number \<times> article) list"

definition mapGet :: "article_map \<Rightarrow> number \<Rightarrow> article option" where
  "mapGet m k = map_of m k"

fun mapSet :: "article_map \<Rightarrow> number \<Rightarrow> article \<Rightarrow> article_map" where
  "mapSet [] k v = [(k, v)]"
| "mapSet ((k', v') # m) k v = (if k' = k then (k, v) # m else (k', v') # mapSet m k v)"

definition mapValues :: "article_map \<Rightarrow> article list" where
  "mapValues m = map snd m"

text \<open>
  The fields of \<open>MemStorage\<close> that the article operations read or write;
  \<open>googleSheets\<close> tells whether the sheets service is configured.  The bookmark map is not
  touched by any of them.
\<close>

record mem_storage =
  articles :: article_map
  currentArticleId :: number
  googleSheets :: bool
  lastSyncTime :: int

definition syncInterval :: int where
  "syncInterval = 2 * 60 * 1000"

text \<open>\<open>article.viewCount || 0\<close>.\<close>

definition viewCountOr0 :: "article \<Rightarrow> nat" where
  "viewCountOr0 a = (case viewCount a of None \<Rightarrow> 0 | Some v \<Rightarrow> v)"

subsection \<open>Content synthesis in the store\<close>

definition contentVariations :: "string \<Rightarrow> string \<Rightarrow> string list" where
  "contentVariations title' category' =
    [title' @ '' - Market analysis reveals significant developments in the '' @ category' @ '' sector. '',
     ''Breaking: '' @ title' @ '' has emerged as a key market story today. '',
     title' @ '' represents important movements in current market dynamics. '',
     ''Latest update on '' @ title' @ '' shows evolving trends in the '' @ category' @ '' space. '',
     title' @ '' captures investor attention with notable market implications. '']"

definition additionalInsights :: "string list" where
  "additionalInsights =
    [''Technical indicators suggest continued momentum with strong volume support.'',
     ''Fundamental analysis reveals robust growth prospects and market positioning.'',
     ''Institutional activity indicates sustained interest from major market participants.'',
     ''Sector rotation patterns highlight potential opportunities for strategic investors.'',
     ''Market sentiment remains positive with favorable risk-reward dynamics.'']"

definition generateUniqueArticleContent ::
  "string \<Rightarrow> string \<Rightarrow> string option \<Rightarrow> string option \<Rightarrow> string option \<Rightarrow> nat \<Rightarrow> string" where
  "generateUniqueArticleContent title' category' stockSymbol' stockPrice' priceChange' index =
     (let baseContent = contentVariations title' category' ! (index mod length (contentVariations title' category'));
          insight = additionalInsights ! (index mod length additionalInsights);
          stockDetails =
            (if truthy stockSymbol' \<and> truthy stockPrice'
             then '' '' @ templateText stockSymbol' @ '' is currently trading at '' @ templateText stockPrice'
                  @ (if truthy priceChange' then '' showing '' @ templateText priceChange' @ '' movement'' else [])
                  @ '' in the current session.''
             else [])
      in baseContent @ insight @ stockDetails
         @ '' Traders and investors are monitoring these developments for potential market opportunities.'')"

subsection \<open>syncFromGoogleSheets\<close>

text \<open>
  The \<open>some\<close> test of the loop body: an element before \<open>index\<close> whose current content
  equals this article's content, which is not blank.
\<close>

definition isDuplicateContent :: "article list \<Rightarrow> nat \<Rightarrow> bool" where
  "isDuplicateContent sheetsArticles index =
     (index > 0 \<and>
      list_ex (\<lambda>(otherIndex, otherArticle).
                 otherIndex < index \<and> content otherArticle = content (sheetsArticles ! index) \<and>
                 trim (content (sheetsArticles ! index)) \<noteq> [])
              (enumerate 0 sheetsArticles))"

text \<open>
  One iteration of \<open>sheetsArticles.forEach\<close>.  The articles are objects of the array and
  are changed in place, so the array is part of the state of the loop.
\<close>

definition syncArticle :: "article list \<times> mem_storage \<Rightarrow> nat \<Rightarrow> article list \<times> mem_storage" where
  "syncArticle s index =
     (let sheetsArticles = fst s; st = snd s;
          article0 = sheetsArticles ! index;
          article1 =
            (if content article0 = [] \<or> trim (content article0) = [] \<or> isDuplicateContent sheetsArticles index
             then article0 \<lparr> content :=
                    generateUniqueArticleContent (title article0) (category article0) (stockSymbol article0)
                      (stockPrice article0) (priceChange article0) index \<rparr>
             else article0);
          article2 =
            (case mapGet (articles st) (articleId article1) of
               Some existingArticle \<Rightarrow> article1 \<lparr> viewCount := Some (viewCountOr0 existingArticle) \<rparr>
             | None \<Rightarrow> article1 \<lparr> viewCount := Some 0 \<rparr>)
      in (sheetsArticles [index := article2],
          st \<lparr> articles := mapSet (articles st) (articleId article2) article2,
               currentArticleId :=
                 (if greaterEq (articleId article2) (currentArticleId st) then plusOne (articleId article2)
                  else currentArticleId st) \<rparr>))"

definition syncLoop :: "article list \<Rightarrow> mem_storage \<Rightarrow> article list \<times> mem_storage" where
  "syncLoop sheetsArticles st = foldl syncArticle (sheetsArticles, st) [0 ..< length sheetsArticles]"

text \<open>
  The \<open>try\<close> block of \<open>syncFromGoogleSheets\<close> from the outcome of
  \<open>await this.googleSheets.fetchArticles()\<close> on: a rejection (\<open>Inl\<close>) goes straight to
  the \<open>catch\<close>, which only logs.  \<open>now\<close> is the value of \<open>Date.now()\<close> after the loop.
\<close>

definition syncFetched :: "int \<Rightarrow> js_error + article list \<Rightarrow> mem_storage \<Rightarrow> mem_storage" where
  "syncFetched now fetched st =
     (case fetched of
        Inl e \<Rightarrow> st
      | Inr sheetsArticles \<Rightarrow>
          if length sheetsArticles > 0
          then (snd (syncLoop sheetsArticles (st \<lparr> articles := [], currentArticleId := Num 1 \<rparr>)))
                 \<lparr> lastSyncTime := now \<rparr>
          else st)"

definition syncFromGoogleSheets ::
  "image_fn \<Rightarrow> (nat \<Rightarrow> int) \<Rightarrow> int \<Rightarrow> sheets_response \<Rightarrow> mem_storage \<Rightarrow> mem_storage" where
  "syncFromGoogleSheets selectImage clock now response st =
     (if \<not> googleSheets st then st
      else syncFetched now (fetchArticles selectImage clock response) st)"

definition forceSyncFromGoogleSheets ::
  "image_fn \<Rightarrow> (nat \<Rightarrow> int) \<Rightarrow> int \<Rightarrow> sheets_response \<Rightarrow> mem_storage \<Rightarrow> mem_storage" where
  "forceSyncFromGoogleSheets selectImage clock now response st =
     syncFromGoogleSheets selectImage clock now response (st \<lparr> lastSyncTime := 0 \<rparr>)"

subsection \<open>createArticle\<close>

text \<open>
  The fields of \<open>InsertArticle\<close> that a caller may supply.  \<open>createArticle\<close> passes an
  object without \<open>id\<close> to \<open>getArticleImage\<close>, which then uses \<open>1\<close>.
\<close>

record insert_article =
  in_title :: string
  in_content :: string
  in_category :: string
  in_stockSymbol :: "string option"
  in_stockPrice :: "string option"
  in_priceChange :: "string option"
  in_exchange :: "string option"
  in_imageUrl :: string
  in_timeAgo :: string
  in_isPremium :: "bool option"

definition createArticle :: "image_fn \<Rightarrow> int \<Rightarrow> insert_article \<Rightarrow> mem_storage \<Rightarrow> article \<times> mem_storage" where
  "createArticle selectImage now insertArticle st =
     (let a = \<lparr> articleId = currentArticleId st,
                 title = in_title insertArticle,
                 content = in_content insertArticle,
                 category = in_category insertArticle,
                 stockSymbol = in_stockSymbol insertArticle,
                 stockPrice = in_stockPrice insertArticle,
                 priceChange = in_priceChange insertArticle,
                 exchange = in_exchange insertArticle,
                 imageUrl = selectImage (in_title insertArticle) (in_content insertArticle)
                              (in_category insertArticle) (in_stockSymbol insertArticle) (Num 1),
                 timeAgo = in_timeAgo insertArticle,
                 isPremium = False,
                 createdAt = now,
                 source = None,
                 sentiment = None,
                 priceTarget = None,
                 viewCount = None \<rparr>
      in (a, st \<lparr> articles := mapSet (articles st) (articleId a) a,
                  currentArticleId := plusOne (currentArticleId st) \<rparr>))"

subsection \<open>Sorting and the trending feed\<close>

text \<open>
  \<open>Array.prototype.sort\<close> with a comparator is stable; for a comparator that is a total
  preorder its result is that of the stable insertion sort.
\<close>

fun insertSorted :: "('a \<Rightarrow> 'a \<Rightarrow> int) \<Rightarrow> 'a \<Rightarrow> 'a list \<Rightarrow> 'a list" where
  "insertSorted cmp a [] = [a]"
| "insertSorted cmp a (b # bs) = (if cmp a b \<le> 0 then a # b # bs else b # insertSorted cmp a bs)"

definition sortWith :: "('a \<Rightarrow> 'a \<Rightarrow> int) \<Rightarrow> 'a list \<Rightarrow> 'a list" where
  "sortWith cmp xs = foldr (insertSorted cmp) xs []"

definition compareViews :: "article \<Rightarrow> article \<Rightarrow> int" where
  "compareViews a b =
     (let viewCountA = viewCountOr0 a; viewCountB = viewCountOr0 b
      in if viewCountA \<noteq> viewCountB then int viewCountB - int viewCountA
         else createdAt b - createdAt a)"

definition compareDate :: "article \<Rightarrow> article \<Rightarrow> int" where
  "compareDate a b = createdAt b - createdAt a"

definition priorityCategories :: "string list" where
  "priorityCategories = [''nifty'', ''breakout'', ''ipo'', ''research_report'', ''movers'']"

definition getTrendingArticles :: "mem_storage \<Rightarrow> article list" where
  "getTrendingArticles st =
     (let allArticles = mapValues (articles st);
          sortedByViews = sortWith compareViews allArticles;
          mostViewed = take 15 sortedByViews;
          remainingArticles = drop 15 sortedByViews;
          diverseContent =
            take 2 (filter (\<lambda>a. category a = ''nifty'') remainingArticles) @
            take 2 (filter (\<lambda>a. category a = ''breakout'') remainingArticles) @
            take 2 (filter (\<lambda>a. category a = ''ipo'') remainingArticles) @
            take 2 (filter (\<lambda>a. category a = ''research_report'') remainingArticles) @
            take 2 (filter (\<lambda>a. category a = ''movers'') remainingArticles) @
            take 5 (filter (\<lambda>a. category a \<notin> set priorityCategories) remainingArticles)
      in mostViewed @ diverseContent)"

subsection \<open>getArticles\<close>

text \<open>
  \<open>now\<close> is the \<open>Date.now()\<close> read on entry, \<open>syncNow\<close> the one read at the end of a
  sync this call triggers.  The optional argument is \<open>None\<close> when omitted.
\<close>

definition getArticles ::
  "image_fn \<Rightarrow> (nat \<Rightarrow> int) \<Rightarrow> int \<Rightarrow> int \<Rightarrow> sheets_response \<Rightarrow> string option \<Rightarrow> mem_storage
     \<Rightarrow> article list \<times> mem_storage" where
  "getArticles selectImage clock now syncNow response category' st =
     (let st1 = (if googleSheets st \<and> (now - lastSyncTime st > syncInterval \<or> length (articles st) = 0)
                 then syncFromGoogleSheets selectImage clock syncNow response st else st);
          allArticles = mapValues (articles st1)
      in if truthy category' \<and> category' \<noteq> Some ''all'' \<and> category' \<noteq> Some ''trending''
         then (sortWith compareDate (filter (\<lambda>a. Some (category a) = category') allArticles), st1)
         else if category' = Some ''trending'' then (getTrendingArticles st1, st1)
         else
           (sortWith compareDate (filter (\<lambda>a. category a = ''nifty'') allArticles) @
            sortWith compareDate (filter (\<lambda>a. category a = ''breakout'') allArticles) @
            sortWith compareDate (filter (\<lambda>a. category a = ''ipo'') allArticles) @
            sortWith compareDate (filter (\<lambda>a. category a = ''sme ipo'') allArticles) @
            sortWith compareDate (filter (\<lambda>a. category a = ''warrant'') allArticles) @
            sortWith compareDate
              (filter (\<lambda>a. category a \<notin> set [''nifty'', ''breakout'', ''ipo'', ''sme ipo'', ''warrant'']) allArticles),
            st1))"

section \<open>Notions and sample values used in the statements\<close>

text \<open>The category names the code stores, and the set as the specification lists it.\<close>

definition storedCategories :: "string list" where
  "storedCategories =
    [''nifty'', ''breakout'', ''movers'', ''warrant'', ''ipo'', ''sme ipo'', ''order_wins'', ''ath'',
     ''results'', ''research_report'', ''others'', ''global'']"

definition specCategories :: "string list" where
  "specCategories =
    [''nifty'', ''breakout'', ''movers'', ''warrant'', ''ipo'', ''sme_ipo'', ''order_wins'', ''ath'',
     ''results'', ''research_report'', ''others'', ''global'']"

text \<open>A row whose normalised category label names a member inherited from \<open>Object.prototype\<close>.\<close>

definition inheritedLabel :: "string list \<Rightarrow> bool" where
  "inheritedLabel row = (trim (toLowerCase (cell row 3)) \<in> set objectPrototypeKeys)"

text \<open>The id the mapper gives a row at position \<open>index\<close>.\<close>

definition rowId :: "string list \<Rightarrow> nat \<Rightarrow> number" where
  "rowId row index =
     (case parseInt (cell row 0) of
        Some n \<Rightarrow> if n \<noteq> Num 0 then n else Num (int index + 1)
      | None \<Rightarrow> Num (int index + 1))"

text \<open>The text the store synthesizes for the article \<open>a\<close> at position \<open>index\<close>.\<close>

definition synthesized :: "article \<Rightarrow> nat \<Rightarrow> string" where
  "synthesized a index =
     generateUniqueArticleContent (title a) (category a) (stockSymbol a) (stockPrice a) (priceChange a) index"

text \<open>Ranking of the trending feed: more views first, among equal views the newer first.\<close>

definition rankedBefore :: "article \<Rightarrow> article \<Rightarrow> bool" where
  "rankedBefore a b =
     (viewCountOr0 a > viewCountOr0 b \<or> (viewCountOr0 a = viewCountOr0 b \<and> createdAt a \<ge> createdAt b))"

text \<open>
  Sample values for worked examples: an image choice, a clock, a store holding article 7
  with 42 views, and a few sheets.
\<close>

definition constImage :: image_fn where
  "constImage t c k s i = Some ''https://images.example/1.jpeg''"

definition exampleArticle :: article where
  "exampleArticle =
     \<lparr> articleId = Num 7, title = ''Nifty up'', content = ''Content A'', category = ''nifty'',
       stockSymbol = Some ''NIFTY'', stockPrice = Some ''23000'', priceChange = Some ''+1%'',
       exchange = Some ''NSE'', imageUrl = Some ''https://images.example/1.jpeg'', timeAgo = ''5 min ago'',
       isPremium = False, createdAt = 1000, source = None, sentiment = None, priceTarget = None,
       viewCount = Some 42 \<rparr>"

definition exampleStore :: mem_storage where
  "exampleStore =
     \<lparr> articles = [(Num 7, exampleArticle)], currentArticleId = Num 8, googleSheets = True, lastSyncTime = 1000 \<rparr>"

definition exampleRow :: "string list" where
  "exampleRow =
     [''7'', ''Nifty up'', ''Content A'', ''nifty'', ''NIFTY'', ''23000'', ''+1%'', ''NSE'', [], ''5 min ago'', ''false'']"

definition warrantRow :: "string list" where
  "warrantRow = [''1'', ''Warrant news'', ''Content W'', ''warrant'']"

definition warrantInsert :: insert_article where
  "warrantInsert =
     \<lparr> in_title = ''Warrant news'', in_content = ''Content W'', in_category = ''warrant'',
       in_stockSymbol = None, in_stockPrice = None, in_priceChange = None, in_exchange = None,
       in_imageUrl = [], in_timeAgo = ''Just now'', in_isPremium = None \<rparr>"

definition fixedClock :: "nat \<Rightarrow> int" where
  "fixedClock i = 2000"

definition untitledRow :: "string list" where
  "untitledRow = [''5'', [], ''Content W'', ''warrant'']"




definition sameIdRows :: "string list list" where
  "sameIdRows = [[''7'', ''First'', ''Content A''], [''7'', ''Second'', ''Content B'']]"

definition sameIdBatch :: "article list" where
  "sameIdBatch = projr (fetchArticles constImage fixedClock (Values (Some sameIdRows)))"

definition resyncedArticle :: article where
  "resyncedArticle = exampleArticle \<lparr> createdAt := 2000, viewCount := Some 0 \<rparr>"

definition numbered :: "nat \<Rightarrow> article" where
  "numbered n =
     exampleArticle \<lparr> articleId := Num (int n),
       category := (if n mod 3 = 0 then ''nifty'' else if n mod 3 = 1 then ''ipo'' else ''others''),
       createdAt := 1000 + int n, viewCount := Some ((n * 7) mod 23) \<rparr>"

definition twentyStore :: mem_storage where
  "twentyStore = exampleStore \<lparr> articles := map (\<lambda>n. (Num (int n), numbered n)) [1 ..< 21],
                         currentArticleId := Num 21 \<rparr>"

text \<open>
  The sentence every text of \<open>generateUniqueArticleContent\<close> ends with, the test that a
  text ends with a given one, and the last three characters, reversed, of the five insight
  sentences.
\<close>

definition closingSentence :: string where
  "closingSentence = '' Traders and investors are monitoring these developments for potential market opportunities.''"

definition endsWith :: "string \<Rightarrow> string \<Rightarrow> bool" where
  "endsWith s suffix = startsWith (rev s) (rev suffix)"




text \<open>The test of \<open>getArticles\<close> that makes it sync before it answers.\<close>

definition syncsFirst :: "int \<Rightarrow> mem_storage \<Rightarrow> bool" where
  "syncsFirst now st = (googleSheets st \<and> (now - lastSyncTime st > syncInterval \<or> length (articles st) = 0))"

text \<open>
  Two articles that come from the same row: they agree in every field except, possibly,
  \<open>content\<close> and \<open>viewCount\<close>, the two fields the sync rewrites.
\<close>

definition sameRow :: "article \<Rightarrow> article \<Rightarrow> bool" where
  "sameRow a b =
     (articleId a = articleId b \<and> title a = title b \<and> category a = category b \<and>
      stockSymbol a = stockSymbol b \<and> stockPrice a = stockPrice b \<and> priceChange a = priceChange b \<and>
      exchange a = exchange b \<and> imageUrl a = imageUrl b \<and> timeAgo a = timeAgo b \<and>
      isPremium a = isPremium b \<and> createdAt a = createdAt b \<and> source a = source b \<and>
      sentiment a = sentiment b \<and> priceTarget a = priceTarget b)"

section \<open>The state of the sync loop\<close>

text \<open>
  The state after the first \<open>m\<close> iterations of the loop, the content and the view count
  an iteration assigns, and the two invariants of the loop: one for the array of articles,
  one for the map.
\<close>

definition loopState :: "article list \<Rightarrow> mem_storage \<Rightarrow> nat \<Rightarrow> article list \<times> mem_storage" where
  "loopState batch st m = foldl syncArticle (batch, st) [0 ..< m]"

definition newContent :: "article list \<Rightarrow> nat \<Rightarrow> string" where
  "newContent A i =
     (if content (A ! i) = [] \<or> trim (content (A ! i)) = [] \<or> isDuplicateContent A i
      then synthesized (A ! i) i else content (A ! i))"

definition newViews :: "mem_storage \<Rightarrow> article \<Rightarrow> nat" where
  "newViews S a = (case mapGet (articles S) (articleId a) of Some e \<Rightarrow> viewCountOr0 e | None \<Rightarrow> 0)"

definition processed :: "article list \<Rightarrow> mem_storage \<Rightarrow> nat \<Rightarrow> article" where
  "processed A S i = (A ! i) \<lparr> content := newContent A i, viewCount := Some (newViews S (A ! i)) \<rparr>"

definition arrayInv :: "article list \<Rightarrow> nat \<Rightarrow> article list \<Rightarrow> bool" where
  "arrayInv batch m A =
     (length A = length batch \<and>
      (\<forall>i < length batch. sameRow (batch ! i) (A ! i)) \<and>
      (\<forall>i < length batch. m \<le> i \<longrightarrow> A ! i = batch ! i) \<and>
      (\<forall>i < m. content (A ! i) = content (batch ! i) \<or> content (A ! i) = synthesized (batch ! i) i) \<and>
      (\<forall>i < m. trim (content (batch ! i)) \<noteq> [] \<longrightarrow> (\<exists>k \<le> i. content (A ! k) = content (batch ! i))) \<and>
      (\<forall>i < m. (\<exists>k < i. content (batch ! k) = content (batch ! i)) \<or> trim (content (batch ! i)) = []
                 \<longrightarrow> content (A ! i) = synthesized (batch ! i) i) \<and>
      (\<forall>i < m. (\<forall>k < i. content (batch ! k) \<noteq> content (batch ! i)) \<and> trim (content (batch ! i)) \<noteq> [] \<and>
                 \<not> endsWith (content (batch ! i)) closingSentence
                 \<longrightarrow> content (A ! i) = content (batch ! i)))"

definition storeInv :: "article list \<Rightarrow> nat \<Rightarrow> article list \<Rightarrow> article_map \<Rightarrow> bool" where
  "storeInv batch m A M =
     (distinct (map fst M) \<and>
      (\<forall>k a. (k, a) \<in> set M \<longleftrightarrow>
          (\<exists>j < m. articleId (batch ! j) = k \<and> a = A ! j \<and>
                  (\<forall>l. j < l \<and> l < m \<longrightarrow> articleId (batch ! l) \<noteq> k))))"

section \<open>Failed fetches leave the store alone\<close>

text \<open>
  C2.  If the spreadsheet request throws during a sync, or if the fetch itself were to
  reject, the state of the store after the sync is the state before it: the same articles
  under the same ids with the same content.  The same holds for a forced sync, which only
  resets the time of the last sync first.
\<close>

theorem sync_keeps_store_when_fetch_throws:
  "syncFromGoogleSheets selectImage clock now (Throws e) st = st \<and>
   syncFetched now (Inl e) st = st \<and>
   articles (forceSyncFromGoogleSheets selectImage clock now (Throws e) st) = articles st"
  by (simp add: syncFromGoogleSheets_def syncFetched_def forceSyncFromGoogleSheets_def fetchArticles_def)

text \<open>The theorem at a store holding article 7 and a request that times out.\<close>

theorem sync_keeps_store_when_fetch_throws_witness:
  "mapValues (articles (syncFromGoogleSheets constImage fixedClock 2000
      (Throws (RequestFailed ''timeout'')) exampleStore)) = [exampleArticle]"
  using sync_keeps_store_when_fetch_throws
          [of constImage fixedClock 2000 "RequestFailed ''timeout''" exampleStore]
  by (simp add: exampleStore_def mapValues_def)

section \<open>What a failed fetch reports\<close>

text \<open>
  C6 as stated fails: a request that throws makes \<open>fetchArticles\<close> resolve with the empty
  list, exactly what it resolves with for a sheet without rows.
\<close>

theorem fetch_failure_counterexample:
  "fetchArticles constImage fixedClock (Throws (RequestFailed ''network'')) = Inr [] \<and>
   fetchArticles constImage fixedClock (Throws (RequestFailed ''network''))
     = fetchArticles constImage fixedClock (Values (Some []))"
  by (simp add: fetchArticles_def)

text \<open>
  C6, amended.  When the spreadsheet request throws, \<open>fetchArticles\<close> catches the error and
  resolves with the empty list, the result it also gives for an empty sheet; the sync treats
  both alike and leaves the store as it was.
\<close>

theorem fetch_failure_is_empty_batch:
  "fetchArticles selectImage clock (Throws e) = Inr [] \<and>
   fetchArticles selectImage clock (Throws e) = fetchArticles selectImage clock (Values (Some [])) \<and>
   syncFromGoogleSheets selectImage clock now (Throws e) st
     = syncFromGoogleSheets selectImage clock now (Values (Some [])) st"
  by (simp add: fetchArticles_def syncFromGoogleSheets_def syncFetched_def)

theorem fetch_failure_is_empty_batch_witness:
  "fetchArticles constImage fixedClock (Throws TypeError) = Inr [] \<and>
   syncFromGoogleSheets constImage fixedClock 2000 (Values (Some [])) exampleStore = exampleStore"
  using fetch_failure_is_empty_batch [of constImage fixedClock TypeError 2000 exampleStore]
  by (simp add: syncFromGoogleSheets_def syncFetched_def fetchArticles_def)

section \<open>The premium flag\<close>

text \<open>
  C3 at a row and at a created article of category \<open>warrant\<close> without a premium flag: the
  mapper and \<open>createArticle\<close> both leave \<open>isPremium\<close> false.
\<close>

theorem warrant_not_premium:
  "map isPremium (projr (fetchArticles constImage fixedClock (Values (Some [warrantRow])))) = [False] \<and>
   map category (projr (fetchArticles constImage fixedClock (Values (Some [warrantRow])))) = [''warrant''] \<and>
   isPremium (fst (createArticle constImage 2000 warrantInsert exampleStore)) = False \<and>
   category (fst (createArticle constImage 2000 warrantInsert exampleStore)) = ''warrant''"
  by code_simp

section \<open>View counts across a sync\<close>

text \<open>
  C1 at a store holding article 7 with 42 views and a batch that contains id 7 again: the
  sync clears the store before it looks the article up, so the count comes back as 0.
\<close>

theorem sync_resets_viewCount:
  "map_option viewCount (mapGet (articles exampleStore) (Num 7)) = Some (Some 42) \<and>
   map_option viewCount
     (mapGet (articles (syncFromGoogleSheets constImage fixedClock 2000
                          (Values (Some [exampleRow])) exampleStore)) (Num 7))
     = Some (Some 0)"
  by code_simp

section \<open>Category normalisation is total\<close>

lemma categoryMap_values: "snd ` set categoryMap \<subseteq> set storedCategories"
  by (simp add: categoryMap_def storedCategories_def)

lemma find_Some_in_set: "find P xs = Some x \<Longrightarrow> x \<in> set xs"
  by (induction xs) (auto split: if_splits)

lemma mapToValidCategory_range:
  assumes "raw \<notin> set objectPrototypeKeys"
  shows "\<exists>c \<in> set storedCategories. mapToValidCategory raw = Name c"
proof -
  let ?partial = "case partialMatch raw of Some (key, val) \<Rightarrow> Name val | None \<Rightarrow> Name ''others''"
  have partial: "\<exists>c \<in> set storedCategories. ?partial = Name c"
  proof (cases "partialMatch raw")
    case None
    moreover have "''others'' \<in> set storedCategories" by (simp add: storedCategories_def)
    ultimately show ?thesis by simp
  next
    case (Some kv)
    obtain k v where kv: "kv = (k, v)" by (cases kv)
    have "(k, v) \<in> set categoryMap"
      using Some kv unfolding partialMatch_def by (simp add: find_Some_in_set)
    then have "v \<in> set storedCategories" using categoryMap_values by force
    then show ?thesis using Some kv by simp
  qed
  show ?thesis
  proof (cases "map_of categoryMap raw")
    case None
    then have "mapToValidCategory raw = ?partial"
      using assms by (simp add: mapToValidCategory_def categoryMap_get_def)
    then show ?thesis using partial by simp
  next
    case (Some v)
    then have "(raw, v) \<in> set categoryMap" by (rule map_of_SomeD)
    then have v: "v \<in> set storedCategories" using categoryMap_values by force
    have "mapToValidCategory raw = (if v \<noteq> [] then Name v else ?partial)"
      using Some by (simp add: mapToValidCategory_def categoryMap_get_def truthyValue_def)
    then show ?thesis using v partial by (cases "v = []") simp_all
  qed
qed

text \<open>
  C5 as stated fails: the label \<open>SME IPO\<close> is normalised to \<open>sme ipo\<close>, written with
  a space, which is not a member of the set the claim lists.
\<close>

theorem sme_ipo_counterexample:
  "normalizeCategory ''SME IPO'' = Name ''sme ipo'' \<and> ''sme ipo'' \<notin> set specCategories"
  by code_simp

text \<open>
  C5, amended.  For every label whose lower-cased, trimmed form is not the name of a member
  inherited from \<open>Object.prototype\<close>, normalisation returns one name from the set nifty,
  breakout, movers, warrant, ipo, sme ipo, order_wins, ath, results, research_report,
  others, global; and the labels \<open>GLOBAL\<close>, \<open>Global \<close> and \<open> global\<close> are normalised to
  the category of \<open>global\<close>.
\<close>

theorem normalizeCategory_total:
  "(trim (toLowerCase label) \<notin> set objectPrototypeKeys \<longrightarrow>
      (\<exists>c \<in> set storedCategories. normalizeCategory label = Name c)) \<and>
   normalizeCategory ''global'' = Name ''global'' \<and>
   normalizeCategory ''GLOBAL'' = normalizeCategory ''global'' \<and>
   normalizeCategory ''Global '' = normalizeCategory ''global'' \<and>
   normalizeCategory '' global'' = normalizeCategory ''global''"
proof -
  have "normalizeCategory ''global'' = Name ''global''" by code_simp
  moreover have "normalizeCategory ''GLOBAL'' = Name ''global''" by code_simp
  moreover have "normalizeCategory ''Global '' = Name ''global''" by code_simp
  moreover have "normalizeCategory '' global'' = Name ''global''" by code_simp
  ultimately show ?thesis
    using mapToValidCategory_range [of "trim (toLowerCase label)"]
    by (simp add: normalizeCategory_def)
qed

theorem normalizeCategory_total_witness:
  "trim (toLowerCase ''Most Active'') \<notin> set objectPrototypeKeys \<and>
   (\<exists>c \<in> set storedCategories. normalizeCategory ''Most Active'' = Name c) \<and>
   normalizeCategory ''Most Active'' = Name ''movers''"
proof -
  have h: "trim (toLowerCase ''Most Active'') \<notin> set objectPrototypeKeys" by code_simp
  have v: "normalizeCategory ''Most Active'' = Name ''movers''" by code_simp
  from normalizeCategory_total [of "''Most Active''"] h
  have "\<exists>c \<in> set storedCategories. normalizeCategory ''Most Active'' = Name c" by blast
  with h v show ?thesis by blast
qed

section \<open>Which rows the mapper keeps\<close>

lemma mapRow_total:
  assumes "\<not> inheritedLabel row"
  shows "\<exists>a. mapRow selectImage clock row index = Inr a"
proof -
  obtain c where "mapToValidCategory (trim (toLowerCase (cell row 3))) = Name c"
    using assms mapToValidCategory_range unfolding inheritedLabel_def by blast
  then show ?thesis
    by (simp add: mapRow_def getArticleImage_def Let_def)
qed

lemma mapRow_fields:
  assumes "mapRow selectImage clock row index = Inr a"
  shows "articleId a = rowId row index" and "title a = orElse (cell row 1) ''Untitled''"
    and "createdAt a = clock index" and "isPremium a = (toLowerCase (cell row 10) = ''true'')"
    and "viewCount a = None"
  using assms
  by (auto simp: mapRow_def getArticleImage_def rowId_def Let_def split: category_value.splits)

lemma mapRows_Inr:
  "mapRows selectImage clock rows idx = Inr batch \<Longrightarrow>
     length batch = length rows \<and>
     (\<forall>i < length rows. mapRow selectImage clock (rows ! i) (idx + i) = Inr (batch ! i))"
proof (induction rows arbitrary: idx batch)
  case Nil
  then show ?case by simp
next
  case (Cons row rows)
  from Cons.prems obtain a as where a: "mapRow selectImage clock row idx = Inr a"
    and as: "mapRows selectImage clock rows (Suc idx) = Inr as" and b: "batch = a # as"
    by (auto split: sum.splits)
  from Cons.IH [OF as] have len: "length as = length rows"
    and rest: "\<And>i. i < length rows \<Longrightarrow> mapRow selectImage clock (rows ! i) (Suc idx + i) = Inr (as ! i)"
    by simp_all
  have "\<forall>i < length (row # rows). mapRow selectImage clock ((row # rows) ! i) (idx + i) = Inr (batch ! i)"
  proof (intro allI impI)
    fix i assume "i < length (row # rows)"
    then show "mapRow selectImage clock ((row # rows) ! i) (idx + i) = Inr (batch ! i)"
      using a rest b by (cases i) simp_all
  qed
  then show ?case using len b by simp
qed

lemma mapRows_total:
  "\<forall>row \<in> set rows. \<not> inheritedLabel row \<Longrightarrow> \<exists>batch. mapRows selectImage clock rows idx = Inr batch"
proof (induction rows arbitrary: idx)
  case Nil
  show ?case by simp
next
  case (Cons row rows)
  obtain a where "mapRow selectImage clock row idx = Inr a"
    using mapRow_total [of row selectImage clock idx] Cons.prems by auto
  moreover obtain as where "mapRows selectImage clock rows (Suc idx) = Inr as"
    using Cons.IH [of "Suc idx"] Cons.prems by auto
  ultimately show ?case by simp
qed

lemma fetch_nonempty:
  assumes "fetchArticles selectImage clock response = Inr batch" and "batch \<noteq> []"
  shows "\<exists>rows. response = Values (Some rows) \<and>
           mapRows selectImage clock (filter usableRow rows) 0 = Inr batch"
  using assms
  by (auto simp: fetchArticles_def Let_def split: sheets_response.splits option.splits sum.splits)

lemma fetch_fields:
  assumes "fetchArticles selectImage clock response = Inr batch" and "batch \<noteq> []" and "j < length batch"
  shows "createdAt (batch ! j) = clock j" and "viewCount (batch ! j) = None"
proof -
  obtain rows where m: "mapRows selectImage clock (filter usableRow rows) 0 = Inr batch"
    using fetch_nonempty [OF assms(1,2)] by blast
  from mapRows_Inr [OF m] assms(3)
  have "mapRow selectImage clock (filter usableRow rows ! j) j = Inr (batch ! j)" by simp
  then show "createdAt (batch ! j) = clock j" and "viewCount (batch ! j) = None"
    by (simp_all add: mapRow_fields)
qed

text \<open>
  A kept row whose label is \<open>Constructor\<close> is normalised to an inherited member; its
  callback throws, and the \<open>catch\<close> of \<open>fetchArticles\<close> returns no article at all.
\<close>

lemma inherited_label_empties_batch:
  "normalizeCategory ''Constructor'' = Inherited ''constructor'' \<and>
   fetchArticles constImage fixedClock
     (Values (Some [warrantRow, [''2'', ''Board news'', ''Content X'', ''Constructor'']])) = Inr []"
  by code_simp

text \<open>
  C8 as stated fails: a row with an id and no title is skipped, although it has an id.
  The row after it is still mapped.
\<close>

theorem untitled_row_counterexample:
  "cell untitledRow 0 \<noteq> [] \<and>
   map title (projr (fetchArticles constImage fixedClock (Values (Some [untitledRow, warrantRow]))))
     = [''Warrant news'']"
  by code_simp

text \<open>
  C8, amended.  For every fetched batch in which no kept row has a category label naming a
  member inherited from \<open>Object.prototype\<close>: a row is skipped exactly when it has fewer than
  three cells, or an empty id cell, or an empty title cell; every other row is mapped to one
  article, in the order of the sheet, with the row's title and with the id parsed from its
  first cell or else its position among the kept rows plus one.  Skipped rows do not stop
  the rows after them from being mapped.
\<close>

theorem rows_skipped_iff_unusable:
  assumes "\<forall>row \<in> set rows. usableRow row \<longrightarrow> \<not> inheritedLabel row"
  shows "\<exists>batch. fetchArticles selectImage clock (Values (Some rows)) = Inr batch \<and>
           map title batch
             = map (\<lambda>row. cell row 1)
                 (filter (\<lambda>row. 3 \<le> length row \<and> cell row 0 \<noteq> [] \<and> cell row 1 \<noteq> []) rows) \<and>
           map articleId batch = map (\<lambda>(index, row). rowId row index) (enumerate 0 (filter usableRow rows))"
proof -
  let ?us = "filter usableRow rows"
  have "\<forall>row \<in> set ?us. \<not> inheritedLabel row" using assms by simp
  then obtain batch where b: "mapRows selectImage clock ?us 0 = Inr batch"
    using mapRows_total by blast
  from mapRows_Inr [OF b] have len: "length batch = length ?us"
    and each: "\<And>i. i < length ?us \<Longrightarrow> mapRow selectImage clock (?us ! i) i = Inr (batch ! i)"
    by simp_all
  have f: "fetchArticles selectImage clock (Values (Some rows)) = Inr batch"
    using b by (simp add: fetchArticles_def)
  have us: "?us = filter (\<lambda>row. 3 \<le> length row \<and> cell row 0 \<noteq> [] \<and> cell row 1 \<noteq> []) rows"
    by (rule filter_cong) (simp_all add: usableRow_def)
  have t: "map title batch = map (\<lambda>row. cell row 1) ?us"
  proof (rule nth_equalityI)
    show "length (map title batch) = length (map (\<lambda>row. cell row 1) ?us)" using len by simp
  next
    fix i assume "i < length (map title batch)"
    then have i: "i < length ?us" using len by simp
    then have "?us ! i \<in> set ?us" by (rule nth_mem)
    then have "cell (?us ! i) 1 \<noteq> []" by (simp add: usableRow_def)
    then have "title (batch ! i) = cell (?us ! i) 1"
      using mapRow_fields(2) [OF each [OF i]] by (simp add: orElse_def)
    then show "map title batch ! i = map (\<lambda>row. cell row 1) ?us ! i" using i len by simp
  qed
  have d: "map articleId batch = map (\<lambda>(index, row). rowId row index) (enumerate 0 ?us)"
  proof (rule nth_equalityI)
    show "length (map articleId batch) = length (map (\<lambda>(index, row). rowId row index) (enumerate 0 ?us))"
      using len by simp
  next
    fix i assume "i < length (map articleId batch)"
    then have i: "i < length ?us" using len by simp
    then show "map articleId batch ! i = map (\<lambda>(index, row). rowId row index) (enumerate 0 ?us) ! i"
      using mapRow_fields(1) [OF each [OF i]] len by (simp add: nth_enumerate_eq)
  qed
  show ?thesis using f t d us by metis
qed

theorem rows_skipped_iff_unusable_witness:
  "\<not> usableRow untitledRow \<and> usableRow warrantRow \<and> \<not> inheritedLabel warrantRow \<and>
   (\<exists>batch. fetchArticles constImage fixedClock (Values (Some [untitledRow, warrantRow])) = Inr batch \<and>
      map title batch = [''Warrant news''] \<and> map articleId batch = [Num 1])"
proof -
  have k1: "\<not> usableRow untitledRow" by code_simp
  have k2: "usableRow warrantRow" by code_simp
  have k3: "\<not> inheritedLabel warrantRow" by code_simp
  have h: "\<forall>row \<in> set [untitledRow, warrantRow]. usableRow row \<longrightarrow> \<not> inheritedLabel row"
    using k1 k3 by simp
  have f: "filter (\<lambda>row. 3 \<le> length row \<and> cell row 0 \<noteq> [] \<and> cell row 1 \<noteq> []) [untitledRow, warrantRow]
             = [warrantRow]" by code_simp
  have u: "filter usableRow [untitledRow, warrantRow] = [warrantRow]" using k1 k2 by simp
  have c: "cell warrantRow 1 = ''Warrant news''" by code_simp
  have r: "rowId warrantRow 0 = Num 1" by code_simp
  from rows_skipped_iff_unusable [OF h, of constImage fixedClock]
  obtain batch where b: "fetchArticles constImage fixedClock (Values (Some [untitledRow, warrantRow])) = Inr batch"
    and t: "map title batch = map (\<lambda>row. cell row 1)
              (filter (\<lambda>row. 3 \<le> length row \<and> cell row 0 \<noteq> [] \<and> cell row 1 \<noteq> []) [untitledRow, warrantRow])"
    and d: "map articleId batch = map (\<lambda>(index, row). rowId row index)
              (enumerate 0 (filter usableRow [untitledRow, warrantRow]))"
    by blast
  have "map title batch = [''Warrant news'']" unfolding t f using c by simp
  moreover have "map articleId batch = [Num 1]" unfolding d u using r by simp
  ultimately have "fetchArticles constImage fixedClock (Values (Some [untitledRow, warrantRow])) = Inr batch \<and>
      map title batch = [''Warrant news''] \<and> map articleId batch = [Num 1]"
    using b by simp
  then have "\<exists>batch. fetchArticles constImage fixedClock (Values (Some [untitledRow, warrantRow])) = Inr batch \<and>
      map title batch = [''Warrant news''] \<and> map articleId batch = [Num 1]"
    by (rule exI)
  with k1 k2 k3 show ?thesis by blast
qed

section \<open>The synthesized text\<close>

text \<open>
  Every synthesized text ends with the closing sentence.  For articles with the same
  category and stock fields, two synthesized texts are equal exactly when the titles are
  equal and the positions agree modulo 5: the insight sentence fixes the position modulo 5,
  and each variation is the title between two fixed texts.
\<close>

lemma startsWith_append: "startsWith (xs @ ys) xs"
  by (induction xs) auto

lemma endsWith_append: "endsWith (xs @ ys) ys"
  by (simp add: endsWith_def startsWith_append)








lemma synthesized_ends: "endsWith (synthesized a i) closingSentence"
proof -
  have "\<exists>xs. synthesized a i = xs @ closingSentence"
    by (simp add: synthesized_def generateUniqueArticleContent_def Let_def closingSentence_def)
  then show ?thesis using endsWith_append by auto
qed


section \<open>The sync loop\<close>

lemma loopState_0: "loopState batch st 0 = (batch, st)"
  by (simp add: loopState_def)

lemma loopState_Suc: "loopState batch st (Suc m) = syncArticle (loopState batch st m) m"
  by (simp add: loopState_def)

lemma syncLoop_loopState: "syncLoop batch st = loopState batch st (length batch)"
  by (simp add: syncLoop_def loopState_def)

lemma syncArticle_fst: "fst (syncArticle (A, S) i) = A [i := processed A S i]"
  by (simp add: syncArticle_def processed_def newContent_def newViews_def synthesized_def Let_def
           split: option.splits)

lemma syncArticle_articles:
  "articles (snd (syncArticle (A, S) i)) = mapSet (articles S) (articleId (A ! i)) (processed A S i)"
  by (simp add: syncArticle_def processed_def newContent_def newViews_def synthesized_def Let_def
           split: option.splits)

lemma sameRow_refl: "sameRow a a"
  by (simp add: sameRow_def)

lemma sameRow_processed: "sameRow a (A ! i) \<Longrightarrow> sameRow a (processed A S i)"
  by (simp add: sameRow_def processed_def)

lemma content_processed: "content (processed A S i) = newContent A i"
  by (simp add: processed_def)

lemma list_ex_enumerate:
  "list_ex P (enumerate 0 xs) \<longleftrightarrow> (\<exists>k < length xs. P (k, xs ! k))"
  by (auto simp: list_ex_iff in_set_enumerate_eq)

lemma isDuplicateContent_iff:
  "i < length A \<Longrightarrow>
   isDuplicateContent A i \<longleftrightarrow>
     (\<exists>k < i. content (A ! k) = content (A ! i)) \<and> trim (content (A ! i)) \<noteq> []"
  unfolding isDuplicateContent_def list_ex_enumerate
  by (auto intro: less_trans)

subsection \<open>The array of articles\<close>

lemma arrayInv_length: "arrayInv batch m A \<Longrightarrow> length A = length batch"
  unfolding arrayInv_def by (elim conjE)

lemma arrayInv_same: "arrayInv batch m A \<Longrightarrow> i < length batch \<Longrightarrow> sameRow (batch ! i) (A ! i)"
  unfolding arrayInv_def by (elim conjE) blast

lemma arrayInv_later: "arrayInv batch m A \<Longrightarrow> i < length batch \<Longrightarrow> m \<le> i \<Longrightarrow> A ! i = batch ! i"
  unfolding arrayInv_def by (elim conjE) blast

lemma arrayInv_content:
  "arrayInv batch m A \<Longrightarrow> i < m \<Longrightarrow>
     content (A ! i) = content (batch ! i) \<or> content (A ! i) = synthesized (batch ! i) i"
  unfolding arrayInv_def by (elim conjE) blast

lemma arrayInv_copy:
  "arrayInv batch m A \<Longrightarrow> i < m \<Longrightarrow> trim (content (batch ! i)) \<noteq> [] \<Longrightarrow>
     \<exists>k \<le> i. content (A ! k) = content (batch ! i)"
  unfolding arrayInv_def by (elim conjE) blast

lemma arrayInv_synthesized:
  "arrayInv batch m A \<Longrightarrow> i < m \<Longrightarrow>
     (\<exists>k < i. content (batch ! k) = content (batch ! i)) \<or> trim (content (batch ! i)) = [] \<Longrightarrow>
     content (A ! i) = synthesized (batch ! i) i"
  unfolding arrayInv_def by (elim conjE) blast

lemma arrayInv_kept:
  "arrayInv batch m A \<Longrightarrow> i < m \<Longrightarrow>
     (\<forall>k < i. content (batch ! k) \<noteq> content (batch ! i)) \<and> trim (content (batch ! i)) \<noteq> [] \<and>
       \<not> endsWith (content (batch ! i)) closingSentence \<Longrightarrow>
     content (A ! i) = content (batch ! i)"
  unfolding arrayInv_def by (elim conjE) blast

lemma arrayInv_0: "arrayInv batch 0 batch"
  by (simp add: arrayInv_def sameRow_refl)

lemma arrayInv_step:
  assumes inv: "arrayInv batch m A" and m: "m < length batch"
  shows "arrayInv batch (Suc m) (A [m := processed A S m])"
proof -
  let ?A' = "A [m := processed A S m]"
  have len: "length A = length batch" using inv by (rule arrayInv_length)
  have same: "\<And>i. i < length batch \<Longrightarrow> sameRow (batch ! i) (A ! i)"
    using inv by (rule arrayInv_same)
  have later: "\<And>i. i < length batch \<Longrightarrow> m \<le> i \<Longrightarrow> A ! i = batch ! i"
    using inv by (rule arrayInv_later)
  have Am: "A ! m = batch ! m" using later m by simp
  have old: "\<And>i. i < m \<Longrightarrow> ?A' ! i = A ! i" by simp
  have new: "?A' ! m = processed A S m" using m len by simp
  have synth: "synthesized (A ! m) m = synthesized (batch ! m) m" using Am by simp
  have c1: "length ?A' = length batch" using len by simp
  have c2: "\<forall>i < length batch. sameRow (batch ! i) (?A' ! i)"
  proof (intro allI impI)
    fix i assume i: "i < length batch"
    show "sameRow (batch ! i) (?A' ! i)"
    proof (cases "i = m")
      case True
      then show ?thesis using new same [OF i] sameRow_processed by simp
    next
      case False
      then show ?thesis using same [OF i] by simp
    qed
  qed
  have c3: "\<forall>i < length batch. Suc m \<le> i \<longrightarrow> ?A' ! i = batch ! i"
    using later by simp
  have c4: "\<forall>i < Suc m. content (?A' ! i) = content (batch ! i) \<or> content (?A' ! i) = synthesized (batch ! i) i"
  proof (intro allI impI)
    fix i assume i: "i < Suc m"
    show "content (?A' ! i) = content (batch ! i) \<or> content (?A' ! i) = synthesized (batch ! i) i"
    proof (cases "i = m")
      case True
      then show ?thesis using new Am synth by (simp add: content_processed newContent_def)
    next
      case False
      then have "i < m" using i by simp
      then show ?thesis using arrayInv_content [OF inv, of i] False by simp
    qed
  qed
  have dupm: "isDuplicateContent A m \<longleftrightarrow>
      (\<exists>k < m. content (A ! k) = content (batch ! m)) \<and> trim (content (batch ! m)) \<noteq> []"
    using isDuplicateContent_iff [of m A] m len Am by simp
  have c5: "\<forall>i < Suc m. trim (content (batch ! i)) \<noteq> [] \<longrightarrow> (\<exists>k \<le> i. content (?A' ! k) = content (batch ! i))"
  proof (intro allI impI)
    fix i assume i: "i < Suc m" and nb: "trim (content (batch ! i)) \<noteq> []"
    show "\<exists>k \<le> i. content (?A' ! k) = content (batch ! i)"
    proof (cases "i = m")
      case False
      then have im: "i < m" using i by simp
      then obtain k where k: "k \<le> i" "content (A ! k) = content (batch ! i)"
        using arrayInv_copy [OF inv im nb] by blast
      then have "?A' ! k = A ! k" using im by simp
      then show ?thesis using k by auto
    next
      case True
      show ?thesis
      proof (cases "isDuplicateContent A m")
        case True
        then obtain k where k: "k < m" "content (A ! k) = content (batch ! m)" using dupm by blast
        then have "?A' ! k = A ! k" by simp
        then show ?thesis using k \<open>i = m\<close> by (metis less_imp_le_nat)
      next
        case False
        have "content (batch ! m) \<noteq> []" using nb \<open>i = m\<close> by (auto simp: trim_def)
        then have "content (?A' ! m) = content (batch ! m)"
          using False new Am nb \<open>i = m\<close> by (simp add: content_processed newContent_def)
        then show ?thesis using \<open>i = m\<close> by blast
      qed
    qed
  qed
  have c6: "\<forall>i < Suc m. (\<exists>k < i. content (batch ! k) = content (batch ! i)) \<or> trim (content (batch ! i)) = []
                 \<longrightarrow> content (?A' ! i) = synthesized (batch ! i) i"
  proof (intro allI impI)
    fix i assume i: "i < Suc m"
      and h: "(\<exists>k < i. content (batch ! k) = content (batch ! i)) \<or> trim (content (batch ! i)) = []"
    show "content (?A' ! i) = synthesized (batch ! i) i"
    proof (cases "i = m")
      case False
      then have "i < m" using i by simp
      then show ?thesis using arrayInv_synthesized [OF inv _ h] False by simp
    next
      case True
      show ?thesis
      proof (cases "trim (content (batch ! m)) = []")
        case blank: True
        then show ?thesis using new \<open>i = m\<close> Am synth by (simp add: content_processed newContent_def)
      next
        case nb: False
        from h True nb obtain k where k: "k < m" "content (batch ! k) = content (batch ! m)" by blast
        have nbk: "trim (content (batch ! k)) \<noteq> []" using nb k by simp
        obtain k' where k': "k' \<le> k" "content (A ! k') = content (batch ! k)"
          using arrayInv_copy [OF inv k(1) nbk] by blast
        have "isDuplicateContent A m" using dupm k k' nb by (metis le_less_trans)
        then show ?thesis using new True synth by (simp add: content_processed newContent_def)
      qed
    qed
  qed
  have c7: "\<forall>i < Suc m. (\<forall>k < i. content (batch ! k) \<noteq> content (batch ! i)) \<and> trim (content (batch ! i)) \<noteq> [] \<and>
                 \<not> endsWith (content (batch ! i)) closingSentence
                 \<longrightarrow> content (?A' ! i) = content (batch ! i)"
  proof (intro allI impI)
    fix i assume i: "i < Suc m"
      and h: "(\<forall>k < i. content (batch ! k) \<noteq> content (batch ! i)) \<and> trim (content (batch ! i)) \<noteq> [] \<and>
                 \<not> endsWith (content (batch ! i)) closingSentence"
    show "content (?A' ! i) = content (batch ! i)"
    proof (cases "i = m")
      case False
      then have "i < m" using i by simp
      then show ?thesis using arrayInv_kept [OF inv _ h] False by simp
    next
      case True
      have "\<not> (\<exists>k < m. content (A ! k) = content (batch ! m))"
      proof
        assume "\<exists>k < m. content (A ! k) = content (batch ! m)"
        then obtain k where k: "k < m" "content (A ! k) = content (batch ! m)" by blast
        have "content (A ! k) = content (batch ! k) \<or> content (A ! k) = synthesized (batch ! k) k"
          using inv k(1) by (rule arrayInv_content)
        then show False
        proof
          assume "content (A ! k) = content (batch ! k)"
          then show False using h True k by auto
        next
          assume "content (A ! k) = synthesized (batch ! k) k"
          then have "endsWith (content (batch ! m)) closingSentence"
            using k(2) synthesized_ends [of "batch ! k" k] by simp
          then show False using h True by simp
        qed
      qed
      then have nd: "\<not> isDuplicateContent A m" using dupm by simp
      have "content (batch ! m) \<noteq> []" using h True by (auto simp: trim_def)
      then show ?thesis
        using nd new Am h True by (simp add: content_processed newContent_def)
    qed
  qed
  show ?thesis unfolding arrayInv_def by (intro conjI c1 c2 c3 c4 c5 c6 c7)
qed

lemma arrayInv_loop:
  "m \<le> length batch \<Longrightarrow> arrayInv batch m (fst (loopState batch st m))"
proof (induction m)
  case 0
  show ?case by (simp add: loopState_0 arrayInv_0)
next
  case (Suc m)
  obtain A S where AS: "loopState batch st m = (A, S)" by (cases "loopState batch st m")
  have "arrayInv batch m A" using Suc AS by simp
  then have "arrayInv batch (Suc m) (A [m := processed A S m])"
    using Suc.prems by (simp add: arrayInv_step)
  then show ?case by (simp add: loopState_Suc AS syncArticle_fst)
qed

subsection \<open>The map of stored articles\<close>

lemma keys_mapSet:
  "map fst (mapSet M k v) = (if k \<in> fst ` set M then map fst M else map fst M @ [k])"
  by (induction M) (force split: if_splits)+

lemma distinct_mapSet: "distinct (map fst M) \<Longrightarrow> distinct (map fst (mapSet M k v))"
  by (simp add: keys_mapSet)

lemma set_mapSet:
  "distinct (map fst M) \<Longrightarrow> set (mapSet M k v) = insert (k, v) {p \<in> set M. fst p \<noteq> k}"
proof (induction M)
  case Nil
  show ?case by simp
next
  case (Cons p M)
  obtain k' v' where p: "p = (k', v')" by (cases p)
  show ?case
  proof (cases "k' = k")
    case True
    have "\<And>q. q \<in> set M \<Longrightarrow> fst q \<noteq> k" using Cons.prems p True by auto
    then show ?thesis using p True by auto
  next
    case False
    then show ?thesis using Cons p by auto
  qed
qed

lemma storeInv_0: "storeInv batch 0 batch []"
  by (simp add: storeInv_def)

lemma storeInv_step:
  assumes inv: "storeInv batch m A M" and Am: "articleId (A ! m) = articleId (batch ! m)"
    and m: "m < length A"
  shows "storeInv batch (Suc m) (A [m := v]) (mapSet M (articleId (A ! m)) v)"
proof -
  let ?k0 = "articleId (batch ! m)"
  let ?A' = "A [m := v]"
  have d: "distinct (map fst M)" using inv by (simp add: storeInv_def)
  have old: "\<And>k a. (k, a) \<in> set M \<longleftrightarrow>
          (\<exists>j < m. articleId (batch ! j) = k \<and> a = A ! j \<and>
                  (\<forall>l. j < l \<and> l < m \<longrightarrow> articleId (batch ! l) \<noteq> k))"
    using inv unfolding storeInv_def by blast
  have new: "?A' ! m = v" using m by simp
  have keep: "\<And>j. j < m \<Longrightarrow> ?A' ! j = A ! j" by simp
  have mem: "\<And>k a. (k, a) \<in> set (mapSet M ?k0 v) \<longleftrightarrow> (k = ?k0 \<and> a = v) \<or> ((k, a) \<in> set M \<and> k \<noteq> ?k0)"
    using set_mapSet [OF d] by auto
  have "\<And>k a. (k, a) \<in> set (mapSet M ?k0 v) \<longleftrightarrow>
          (\<exists>j < Suc m. articleId (batch ! j) = k \<and> a = ?A' ! j \<and>
                  (\<forall>l. j < l \<and> l < Suc m \<longrightarrow> articleId (batch ! l) \<noteq> k))"
  proof
    fix k a
    assume "(k, a) \<in> set (mapSet M ?k0 v)"
    then consider "k = ?k0" "a = v" | "(k, a) \<in> set M" "k \<noteq> ?k0" using mem by blast
    then show "\<exists>j < Suc m. articleId (batch ! j) = k \<and> a = ?A' ! j \<and>
                  (\<forall>l. j < l \<and> l < Suc m \<longrightarrow> articleId (batch ! l) \<noteq> k)"
    proof cases
      case 1
      then have "articleId (batch ! m) = k \<and> a = ?A' ! m \<and>
                  (\<forall>l. m < l \<and> l < Suc m \<longrightarrow> articleId (batch ! l) \<noteq> k)"
        using new by auto
      then show ?thesis by blast
    next
      case 2
      then obtain j where j: "j < m" "articleId (batch ! j) = k" "a = A ! j"
        "\<forall>l. j < l \<and> l < m \<longrightarrow> articleId (batch ! l) \<noteq> k"
        using old by blast
      have "\<forall>l. j < l \<and> l < Suc m \<longrightarrow> articleId (batch ! l) \<noteq> k"
        using j(4) 2(2) by (metis less_Suc_eq)
      then show ?thesis using j keep by (metis less_Suc_eq)
    qed
  next
    fix k a
    assume "\<exists>j < Suc m. articleId (batch ! j) = k \<and> a = ?A' ! j \<and>
                  (\<forall>l. j < l \<and> l < Suc m \<longrightarrow> articleId (batch ! l) \<noteq> k)"
    then obtain j where j: "j < Suc m" "articleId (batch ! j) = k" "a = ?A' ! j"
        "\<forall>l. j < l \<and> l < Suc m \<longrightarrow> articleId (batch ! l) \<noteq> k"
      by blast
    show "(k, a) \<in> set (mapSet M ?k0 v)"
    proof (cases "j = m")
      case True
      then show ?thesis using j new mem by simp
    next
      case False
      then have jm: "j < m" using j(1) by simp
      then have "k \<noteq> ?k0" using j(4) by auto
      moreover have "(k, a) \<in> set M" using old j jm keep by auto
      ultimately show ?thesis using mem by simp
    qed
  qed
  then show ?thesis
    unfolding storeInv_def using distinct_mapSet [OF d] Am by simp
qed

lemma storeInv_loop:
  assumes "articles st = []"
  shows "m \<le> length batch \<Longrightarrow>
     storeInv batch m (fst (loopState batch st m)) (articles (snd (loopState batch st m)))"
proof (induction m)
  case 0
  show ?case using assms by (simp add: loopState_0 storeInv_0)
next
  case (Suc m)
  obtain A S where AS: "loopState batch st m = (A, S)" by (cases "loopState batch st m")
  have ai: "arrayInv batch m A" using arrayInv_loop [of m batch st] Suc.prems AS by simp
  then have len: "length A = length batch" and Am: "A ! m = batch ! m"
    using Suc.prems by (simp_all add: arrayInv_length arrayInv_later)
  have "storeInv batch m A (articles S)" using Suc AS by simp
  then have "storeInv batch (Suc m) (A [m := processed A S m])
               (mapSet (articles S) (articleId (A ! m)) (processed A S m))"
    using storeInv_step [of batch m A "articles S" "processed A S m"] Am len Suc.prems by simp
  then show ?case by (simp add: loopState_Suc AS syncArticle_fst syncArticle_articles)
qed

text \<open>Every id of the batch has a last row.\<close>

lemma last_row_with_id:
  fixes f :: "nat \<Rightarrow> 'a"
  assumes "j < n"
  shows "\<exists>j'. j \<le> j' \<and> j' < n \<and> f j' = f j \<and> (\<forall>l. j' < l \<and> l < n \<longrightarrow> f l \<noteq> f j)"
  using assms
proof (induction "n - j" arbitrary: j rule: less_induct)
  case less
  show ?case
  proof (cases "\<exists>l. j < l \<and> l < n \<and> f l = f j")
    case False
    then show ?thesis using less.prems by blast
  next
    case True
    then obtain l where l: "j < l" "l < n" "f l = f j" by blast
    then have "n - l < n - j" by simp
    from less.hyps [OF this l(2)]
    obtain j' where "l \<le> j'" "j' < n" "f j' = f l" "\<forall>l'. j' < l' \<and> l' < n \<longrightarrow> f l' \<noteq> f l" by blast
    then show ?thesis using l by (metis less_imp_le_nat le_trans)
  qed
qed

lemma sync_articles:
  assumes "googleSheets st" and "fetchArticles selectImage clock response = Inr batch" and "batch \<noteq> []"
  shows "articles (syncFromGoogleSheets selectImage clock now response st)
           = articles (snd (syncLoop batch (st \<lparr> articles := [], currentArticleId := Num 1 \<rparr>)))"
  using assms by (simp add: syncFromGoogleSheets_def syncFetched_def)

lemma sync_store_entries:
  assumes "googleSheets st" and "fetchArticles selectImage clock response = Inr batch" and "batch \<noteq> []"
  shows "storeInv batch (length batch)
           (fst (syncLoop batch (st \<lparr> articles := [], currentArticleId := Num 1 \<rparr>)))
           (articles (syncFromGoogleSheets selectImage clock now response st))"
  using storeInv_loop [of "st \<lparr> articles := [], currentArticleId := Num 1 \<rparr>" "length batch" batch]
  by (simp add: sync_articles [OF assms] syncLoop_loopState)

section \<open>Repeated content within a batch\<close>





section \<open>Creation times across a sync\<close>

text \<open>
  C9 as stated fails: article 7 was stored with creation time 1000; after a sync at time
  2000 whose batch contains id 7 again, the stored article 7 has creation time 2000.
\<close>

theorem sync_overwrites_createdAt_counterexample:
  "map_option createdAt (mapGet (articles exampleStore) (Num 7)) = Some 1000 \<and>
   map_option createdAt
     (mapGet (articles (syncFromGoogleSheets constImage fixedClock 2000
                          (Values (Some [exampleRow])) exampleStore)) (Num 7))
     = Some 2000"
  by code_simp

text \<open>
  C9, amended.  After a sync that fetched a batch with at least one article, every stored
  article comes from the last row of the batch with its id, and its \<open>createdAt\<close> is the
  time at which that row was mapped during this sync's fetch, whatever was stored under
  the id before.
\<close>

theorem sync_stamps_createdAt:
  assumes "googleSheets st" and "fetchArticles selectImage clock response = Inr batch" and "batch \<noteq> []"
    and "(k, a) \<in> set (articles (syncFromGoogleSheets selectImage clock now response st))"
  shows "\<exists>j < length batch.
           articleId (batch ! j) = k \<and>
           (\<forall>l. j < l \<and> l < length batch \<longrightarrow> articleId (batch ! l) \<noteq> k) \<and>
           sameRow (batch ! j) a \<and> createdAt a = clock j"
proof -
  let ?A = "fst (syncLoop batch (st \<lparr> articles := [], currentArticleId := Num 1 \<rparr>))"
  from sync_store_entries [OF assms(1-3), of now] assms(4)
  obtain j where j: "j < length batch" "articleId (batch ! j) = k" "a = ?A ! j"
    and lastj: "\<forall>l. j < l \<and> l < length batch \<longrightarrow> articleId (batch ! l) \<noteq> k"
    unfolding storeInv_def by blast
  have "arrayInv batch (length batch) ?A"
    using arrayInv_loop [of "length batch" batch] by (simp add: syncLoop_loopState)
  then have same: "sameRow (batch ! j) (?A ! j)" using j(1) by (rule arrayInv_same)
  then have "createdAt a = createdAt (batch ! j)" using j(3) by (simp add: sameRow_def)
  then have "createdAt a = clock j" using fetch_fields(1) [OF assms(2,3) j(1)] by simp
  then show ?thesis using j lastj same by blast
qed

theorem sync_stamps_createdAt_witness:
  "googleSheets exampleStore \<and>
   fetchArticles constImage fixedClock (Values (Some [exampleRow]))
     = Inr [exampleArticle \<lparr> createdAt := 2000, viewCount := None \<rparr>] \<and>
   articles (syncFromGoogleSheets constImage fixedClock 2000 (Values (Some [exampleRow])) exampleStore)
     = [(Num 7, resyncedArticle)] \<and>
   createdAt resyncedArticle = fixedClock 0"
proof -
  have h1: "googleSheets exampleStore" by code_simp
  have h2: "fetchArticles constImage fixedClock (Values (Some [exampleRow]))
     = Inr [exampleArticle \<lparr> createdAt := 2000, viewCount := None \<rparr>]" by code_simp
  have h3: "[exampleArticle \<lparr> createdAt := 2000, viewCount := None \<rparr>] \<noteq> []" by simp
  have st: "articles (syncFromGoogleSheets constImage fixedClock 2000 (Values (Some [exampleRow])) exampleStore)
     = [(Num 7, resyncedArticle)]" by code_simp
  then have h4: "(Num 7, resyncedArticle) \<in> set (articles (syncFromGoogleSheets constImage fixedClock 2000
      (Values (Some [exampleRow])) exampleStore))" by simp
  from sync_stamps_createdAt [OF h1 h2 h3 h4]
  have "createdAt resyncedArticle = fixedClock 0" by auto
  with h1 h2 st show ?thesis by blast
qed

section \<open>The store is keyed by id\<close>

text \<open>
  Ids are doubles: the first cells \<open>9007199254740992\<close> and \<open>9007199254740993\<close> parse to
  the same number, and the two rows share one key of the store.
\<close>

lemma large_ids_share_a_key:
  "parseInt ''9007199254740993'' = Some (Num 9007199254740992) \<and>
   map fst (articles (syncFromGoogleSheets constImage fixedClock 2000
     (Values (Some [[''9007199254740992'', ''A'', ''x''], [''9007199254740993'', ''B'', ''y'']])) exampleStore))
     = [Num 9007199254740992]"
  by code_simp

text \<open>
  C10.  In a sync that fetched at least one article, every article is stored under its id,
  and the id of the article at position \<open>index\<close> among the kept rows is the integer parsed
  from the row's first cell, or \<open>index + 1\<close> when the parse gives 0 or \<open>NaN\<close>.  The ids in
  the store are distinct and are exactly the ids of the batch; under each id the store
  holds the article of the last row with that id, as the loop left it, so a later row
  replaces an earlier one with the same id.  The store never holds more articles than the
  batch, and it can hold fewer: two rows with id 7 leave one stored article, the second.
\<close>

theorem sync_keys_store_by_id:
  assumes "googleSheets st" and "fetchArticles selectImage clock response = Inr batch" and "batch \<noteq> []"
  shows
    "distinct (map fst (articles (syncFromGoogleSheets selectImage clock now response st))) \<and>
     (\<forall>(k, a) \<in> set (articles (syncFromGoogleSheets selectImage clock now response st)). articleId a = k) \<and>
     fst ` set (articles (syncFromGoogleSheets selectImage clock now response st)) = articleId ` set batch \<and>
     (\<forall>j < length batch.
        (\<forall>l. j < l \<and> l < length batch \<longrightarrow> articleId (batch ! l) \<noteq> articleId (batch ! j)) \<longrightarrow>
        (\<exists>a. mapGet (articles (syncFromGoogleSheets selectImage clock now response st)) (articleId (batch ! j))
               = Some a \<and>
             a = fst (syncLoop batch (st \<lparr> articles := [], currentArticleId := Num 1 \<rparr>)) ! j \<and>
             sameRow (batch ! j) a)) \<and>
     length (articles (syncFromGoogleSheets selectImage clock now response st)) \<le> length batch \<and>
     (\<forall>rows. response = Values (Some rows) \<longrightarrow>
        map articleId batch = map (\<lambda>(index, row). rowId row index) (enumerate 0 (filter usableRow rows))) \<and>
     length sameIdBatch = 2 \<and>
     map (\<lambda>(k, a). (k, title a))
       (articles (syncFromGoogleSheets constImage fixedClock 2000 (Values (Some sameIdRows)) exampleStore))
       = [(Num 7, ''Second'')]"
proof -
  let ?M = "articles (syncFromGoogleSheets selectImage clock now response st)"
  let ?A = "fst (syncLoop batch (st \<lparr> articles := [], currentArticleId := Num 1 \<rparr>))"
  let ?n = "length batch"
  have si: "storeInv batch ?n ?A ?M" using sync_store_entries [OF assms] .
  have ai: "arrayInv batch ?n ?A"
    using arrayInv_loop [of ?n batch] by (simp add: syncLoop_loopState)
  have same: "\<And>j. j < ?n \<Longrightarrow> sameRow (batch ! j) (?A ! j)" using ai by (rule arrayInv_same)
  have d: "distinct (map fst ?M)" using si by (simp add: storeInv_def)
  have mem: "\<And>k a. (k, a) \<in> set ?M \<longleftrightarrow>
          (\<exists>j < ?n. articleId (batch ! j) = k \<and> a = ?A ! j \<and>
                  (\<forall>l. j < l \<and> l < ?n \<longrightarrow> articleId (batch ! l) \<noteq> k))"
    using si unfolding storeInv_def by blast
  have p2: "\<forall>(k, a) \<in> set ?M. articleId a = k"
  proof (clarify)
    fix k a assume "(k, a) \<in> set ?M"
    then obtain j where "j < ?n" "articleId (batch ! j) = k" "a = ?A ! j" using mem by blast
    then show "articleId a = k" using same [of j] by (simp add: sameRow_def)
  qed
  have p3: "fst ` set ?M = articleId ` set batch"
  proof (rule set_eqI, rule iffI)
    fix k assume "k \<in> fst ` set ?M"
    then obtain a where "(k, a) \<in> set ?M" by force
    then obtain j where "j < ?n" "articleId (batch ! j) = k" using mem by blast
    then show "k \<in> articleId ` set batch" by (metis imageI nth_mem)
  next
    fix k assume "k \<in> articleId ` set batch"
    then obtain j where j: "j < ?n" "articleId (batch ! j) = k" by (auto simp: in_set_conv_nth)
    from last_row_with_id [of j ?n "\<lambda>i. articleId (batch ! i)"] j(1)
    obtain j' where j': "j' < ?n" "articleId (batch ! j') = articleId (batch ! j)"
      "\<forall>l. j' < l \<and> l < ?n \<longrightarrow> articleId (batch ! l) \<noteq> articleId (batch ! j)" by blast
    then have "(k, ?A ! j') \<in> set ?M" using mem j(2) by auto
    then show "k \<in> fst ` set ?M" by force
  qed
  have p4: "\<forall>j < ?n.
        (\<forall>l. j < l \<and> l < ?n \<longrightarrow> articleId (batch ! l) \<noteq> articleId (batch ! j)) \<longrightarrow>
        (\<exists>a. mapGet ?M (articleId (batch ! j)) = Some a \<and> a = ?A ! j \<and> sameRow (batch ! j) a)"
  proof (intro allI impI)
    fix j assume j: "j < ?n"
      and lastj: "\<forall>l. j < l \<and> l < ?n \<longrightarrow> articleId (batch ! l) \<noteq> articleId (batch ! j)"
    then have "(articleId (batch ! j), ?A ! j) \<in> set ?M" using mem by blast
    then have "mapGet ?M (articleId (batch ! j)) = Some (?A ! j)"
      using d by (simp add: mapGet_def)
    then show "\<exists>a. mapGet ?M (articleId (batch ! j)) = Some a \<and> a = ?A ! j \<and> sameRow (batch ! j) a"
      using same [OF j] by simp
  qed
  have "length ?M = card (fst ` set ?M)"
    using d by (metis distinct_card length_map set_map)
  also have "\<dots> = card (articleId ` set batch)" using p3 by simp
  also have "\<dots> \<le> card (set batch)" by (simp add: card_image_le)
  also have "\<dots> \<le> ?n" by (rule card_length)
  finally have p5: "length ?M \<le> ?n" .
  have p6: "\<forall>rows. response = Values (Some rows) \<longrightarrow>
        map articleId batch = map (\<lambda>(index, row). rowId row index) (enumerate 0 (filter usableRow rows))"
  proof (intro allI impI)
    fix rows assume r: "response = Values (Some rows)"
    let ?us = "filter usableRow rows"
    have m: "mapRows selectImage clock ?us 0 = Inr batch"
      using fetch_nonempty [OF assms(2,3)] r by simp
    from mapRows_Inr [OF m] have len: "length batch = length ?us"
      and each: "\<And>i. i < length ?us \<Longrightarrow> mapRow selectImage clock (?us ! i) i = Inr (batch ! i)"
      by simp_all
    show "map articleId batch = map (\<lambda>(index, row). rowId row index) (enumerate 0 ?us)"
    proof (rule nth_equalityI)
      show "length (map articleId batch) = length (map (\<lambda>(index, row). rowId row index) (enumerate 0 ?us))"
        using len by simp
    next
      fix i assume "i < length (map articleId batch)"
      then have i: "i < length ?us" using len by simp
      then show "map articleId batch ! i = map (\<lambda>(index, row). rowId row index) (enumerate 0 ?us) ! i"
        using mapRow_fields(1) [OF each [OF i]] len by (simp add: nth_enumerate_eq)
    qed
  qed
  have p7: "length sameIdBatch = 2" by code_simp
  have p8: "map (\<lambda>(k, a). (k, title a))
       (articles (syncFromGoogleSheets constImage fixedClock 2000 (Values (Some sameIdRows)) exampleStore))
       = [(Num 7, ''Second'')]" by code_simp
  show ?thesis using d p2 p3 p4 p5 p6 p7 p8 by blast
qed

theorem sync_keys_store_by_id_witness:
  "googleSheets exampleStore \<and>
   fetchArticles constImage fixedClock (Values (Some sameIdRows)) = Inr sameIdBatch \<and>
   sameIdBatch \<noteq> [] \<and>
   map articleId sameIdBatch = [Num 7, Num 7] \<and>
   fst ` set (articles (syncFromGoogleSheets constImage fixedClock 2000 (Values (Some sameIdRows)) exampleStore))
     = {Num 7} \<and>
   length (articles (syncFromGoogleSheets constImage fixedClock 2000 (Values (Some sameIdRows)) exampleStore))
     \<le> length sameIdBatch"
proof -
  have h1: "googleSheets exampleStore" by code_simp
  have h2: "fetchArticles constImage fixedClock (Values (Some sameIdRows)) = Inr sameIdBatch" by code_simp
  have ids: "map articleId sameIdBatch = [Num 7, Num 7]" by code_simp
  then have h3: "sameIdBatch \<noteq> []" by auto
  have s: "articleId ` set sameIdBatch = {Num 7}"
    using ids by (metis image_set list.simps(15) empty_set insert_absorb2)
  from sync_keys_store_by_id [OF h1 h2 h3, of 2000]
  have "fst ` set (articles (syncFromGoogleSheets constImage fixedClock 2000 (Values (Some sameIdRows)) exampleStore))
          = articleId ` set sameIdBatch"
    and "length (articles (syncFromGoogleSheets constImage fixedClock 2000 (Values (Some sameIdRows)) exampleStore))
          \<le> length sameIdBatch"
    by blast+
  with h1 h2 h3 ids s show ?thesis by simp
qed

section \<open>The trending feed\<close>

text \<open>
  The comparator of the trending sort is a total preorder, so the result of the stable sort
  is ordered by it and is a permutation of the stored articles.
\<close>

lemma mset_insertSorted: "mset (insertSorted cmp a xs) = add_mset a (mset xs)"
  by (induction xs) auto

lemma mset_sortWith: "mset (sortWith cmp xs) = mset xs"
  by (induction xs) (auto simp: sortWith_def mset_insertSorted)

lemma set_insertSorted: "set (insertSorted cmp a xs) = insert a (set xs)"
  by (induction xs) auto

lemma compareViews_le: "compareViews a b \<le> 0 \<longleftrightarrow> rankedBefore a b"
  by (auto simp: compareViews_def rankedBefore_def Let_def)

lemma rankedBefore_total: "\<not> rankedBefore a b \<Longrightarrow> rankedBefore b a"
  by (auto simp: rankedBefore_def)

lemma rankedBefore_trans: "rankedBefore a b \<Longrightarrow> rankedBefore b c \<Longrightarrow> rankedBefore a c"
  by (auto simp: rankedBefore_def)

lemma sorted_insertSorted:
  "sorted_wrt rankedBefore xs \<Longrightarrow> sorted_wrt rankedBefore (insertSorted compareViews a xs)"
proof (induction xs)
  case Nil
  show ?case by simp
next
  case (Cons b bs)
  show ?case
  proof (cases "compareViews a b \<le> 0")
    case True
    then have ab: "rankedBefore a b" by (simp add: compareViews_le)
    have "\<forall>c \<in> set bs. rankedBefore a c"
      using Cons.prems ab by (auto intro: rankedBefore_trans)
    then show ?thesis using True ab Cons.prems by simp
  next
    case False
    then have "rankedBefore b a" using rankedBefore_total by (simp add: compareViews_le)
    then show ?thesis using False Cons by (auto simp: set_insertSorted)
  qed
qed

lemma sorted_sortWith: "sorted_wrt rankedBefore (sortWith compareViews xs)"
proof (induction xs)
  case Nil
  show ?case by (simp add: sortWith_def)
next
  case (Cons a xs)
  then show ?case using sorted_insertSorted [of "sortWith compareViews xs" a] by (simp add: sortWith_def)
qed

lemma views_of_ranked:
  assumes "sorted_wrt rankedBefore xs"
  shows "map viewCountOr0 xs = rev (sort (map viewCountOr0 xs))"
proof -
  have "sorted_wrt (\<lambda>a b. viewCountOr0 a \<ge> viewCountOr0 b) xs"
    using assms by (rule sorted_wrt_mono_rel [rotated]) (auto simp: rankedBefore_def)
  then have "sorted (rev (map viewCountOr0 xs))"
    by (simp add: sorted_wrt_rev sorted_wrt_map rev_map [symmetric] del: rev_map)
  then have "sort (map viewCountOr0 xs) = rev (map viewCountOr0 xs)"
    by (intro properties_for_sort) simp_all
  then show ?thesis by simp
qed

lemma strictly_ranked:
  assumes "sorted_wrt rankedBefore xs" and "distinct (map viewCountOr0 xs)"
  shows "sorted_wrt (\<lambda>a b. viewCountOr0 a > viewCountOr0 b) xs"
  unfolding sorted_wrt_iff_nth_less
proof (intro allI impI)
  fix i j assume ij: "i < j" "j < length xs"
  then have "rankedBefore (xs ! i) (xs ! j)" using assms(1) by (simp add: sorted_wrt_iff_nth_less)
  then have "viewCountOr0 (xs ! i) \<ge> viewCountOr0 (xs ! j)" by (auto simp: rankedBefore_def)
  moreover have "map viewCountOr0 xs ! i \<noteq> map viewCountOr0 xs ! j"
    using assms(2) ij nth_eq_iff_index_eq [of "map viewCountOr0 xs" i j] by simp
  ultimately show "viewCountOr0 (xs ! i) > viewCountOr0 (xs ! j)" using ij by simp
qed

lemma filter_take_filter_same:
  "\<forall>x. Q x \<longrightarrow> P x \<Longrightarrow> filter P (take n (filter Q xs)) = take n (filter Q xs)"
  by (rule filter_True) (auto dest: in_set_takeD)

lemma filter_take_filter_other:
  "\<forall>x. Q x \<longrightarrow> \<not> P x \<Longrightarrow> filter P (take n (filter Q xs)) = []"
  by (auto simp: filter_empty_conv dest: in_set_takeD)

lemma trending_split:
  "take 15 (getTrendingArticles st) = take 15 (sortWith compareViews (mapValues (articles st))) \<and>
   drop 15 (getTrendingArticles st) =
     (let remainingArticles = drop 15 (sortWith compareViews (mapValues (articles st))) in
        take 2 (filter (\<lambda>a. category a = ''nifty'') remainingArticles) @
        take 2 (filter (\<lambda>a. category a = ''breakout'') remainingArticles) @
        take 2 (filter (\<lambda>a. category a = ''ipo'') remainingArticles) @
        take 2 (filter (\<lambda>a. category a = ''research_report'') remainingArticles) @
        take 2 (filter (\<lambda>a. category a = ''movers'') remainingArticles) @
        take 5 (filter (\<lambda>a. category a \<notin> set priorityCategories) remainingArticles))"
proof (cases "15 \<le> length (sortWith compareViews (mapValues (articles st)))")
  case True
  then show ?thesis by (simp add: getTrendingArticles_def Let_def)
next
  case False
  then show ?thesis by (simp add: getTrendingArticles_def Let_def)
qed

lemma trending_bucket:
  assumes "c \<in> set priorityCategories"
  shows "filter (\<lambda>a. category a = c) (drop 15 (getTrendingArticles st))
           = take 2 (filter (\<lambda>a. category a = c)
               (drop 15 (sortWith compareViews (mapValues (articles st)))))"
  using assms
  by (auto simp: trending_split Let_def priorityCategories_def filter_take_filter_same
      filter_take_filter_other)

lemma trending_others:
  "filter (\<lambda>a. category a \<notin> set priorityCategories) (drop 15 (getTrendingArticles st))
           = take 5 (filter (\<lambda>a. category a \<notin> set priorityCategories)
               (drop 15 (sortWith compareViews (mapValues (articles st)))))"
  by (simp add: trending_split Let_def filter_take_filter_same filter_take_filter_other
      priorityCategories_def)

lemma trending_grouped:
  "drop 15 (getTrendingArticles st) =
     concat (map (\<lambda>c. filter (\<lambda>a. category a = c) (drop 15 (getTrendingArticles st))) priorityCategories) @
     filter (\<lambda>a. category a \<notin> set priorityCategories) (drop 15 (getTrendingArticles st))"
proof -
  have "concat (map (\<lambda>c. filter (\<lambda>a. category a = c) (drop 15 (getTrendingArticles st))) priorityCategories)
      = concat (map (\<lambda>c. take 2 (filter (\<lambda>a. category a = c)
               (drop 15 (sortWith compareViews (mapValues (articles st)))))) priorityCategories)"
    by (rule arg_cong [where f = concat], rule map_cong) (simp_all add: trending_bucket)
  then show ?thesis
    unfolding trending_others
    by (simp add: trending_split Let_def priorityCategories_def)
qed

lemma getArticles_trending:
  "fst (getArticles selectImage clock now syncNow response (Some ''trending'') st)
     = getTrendingArticles (snd (getArticles selectImage clock now syncNow response (Some ''trending'') st))"
  by (simp add: getArticles_def Let_def truthy_def)

text \<open>
  C7.  Let the ranking be the stored articles sorted by view count, most viewed first, and
  among equal view counts by creation time, newest first.  The trending feed starts with
  the first 15 articles of the ranking.  Its tail is taken from the rest of the ranking:
  for each of nifty, breakout, ipo, research_report and movers the first two articles of
  that category, then the first five articles of all other categories, each group in the
  order of the ranking.  The view counts of the head are the 15 largest view counts in
  descending order; on a store of 20 articles with distinct view counts the head has 15
  articles with strictly descending view counts, each above every article outside the
  head.  \<open>getArticles\<close> with \<open>trending\<close> leaves the store as it is, or as the sync left
  it when the store is stale or empty, and returns the feed of that store; when it does
  not sync, or the sync fetches nothing, it returns the feed of the store it was called
  on, so the 20 article scenario holds for it as well.
\<close>

theorem trending_feed:
  "mset (sortWith compareViews (mapValues (articles st))) = mset (mapValues (articles st)) \<and>
   sorted_wrt rankedBefore (sortWith compareViews (mapValues (articles st))) \<and>
   take 15 (getTrendingArticles st) = take 15 (sortWith compareViews (mapValues (articles st))) \<and>
   (\<forall>c \<in> set priorityCategories.
      filter (\<lambda>a. category a = c) (drop 15 (getTrendingArticles st))
        = take 2 (filter (\<lambda>a. category a = c) (drop 15 (sortWith compareViews (mapValues (articles st)))))) \<and>
   filter (\<lambda>a. category a \<notin> set priorityCategories) (drop 15 (getTrendingArticles st))
     = take 5 (filter (\<lambda>a. category a \<notin> set priorityCategories)
         (drop 15 (sortWith compareViews (mapValues (articles st))))) \<and>
   drop 15 (getTrendingArticles st)
     = concat (map (\<lambda>c. filter (\<lambda>a. category a = c) (drop 15 (getTrendingArticles st))) priorityCategories) @
       filter (\<lambda>a. category a \<notin> set priorityCategories) (drop 15 (getTrendingArticles st)) \<and>
   map viewCountOr0 (take 15 (getTrendingArticles st))
     = take 15 (rev (sort (map viewCountOr0 (mapValues (articles st))))) \<and>
   (length (articles st) = 20 \<and> distinct (map viewCountOr0 (mapValues (articles st))) \<longrightarrow>
      length (take 15 (getTrendingArticles st)) = 15 \<and>
      sorted_wrt (\<lambda>a b. viewCountOr0 a > viewCountOr0 b) (take 15 (getTrendingArticles st)) \<and>
      (\<forall>a \<in> set (take 15 (getTrendingArticles st)).
         \<forall>b \<in> set (drop 15 (sortWith compareViews (mapValues (articles st)))).
           viewCountOr0 a > viewCountOr0 b)) \<and>
   fst (getArticles selectImage clock now syncNow response (Some ''trending'') st)
     = getTrendingArticles (snd (getArticles selectImage clock now syncNow response (Some ''trending'') st)) \<and>
   snd (getArticles selectImage clock now syncNow response (Some ''trending'') st)
     = (if syncsFirst now st then syncFromGoogleSheets selectImage clock syncNow response st else st) \<and>
   (\<not> syncsFirst now st \<or> fetchArticles selectImage clock response = Inr [] \<longrightarrow>
      getArticles selectImage clock now syncNow response (Some ''trending'') st = (getTrendingArticles st, st)) \<and>
   ((\<not> syncsFirst now st \<or> fetchArticles selectImage clock response = Inr []) \<and>
    length (articles st) = 20 \<and> distinct (map viewCountOr0 (mapValues (articles st))) \<longrightarrow>
      length (take 15 (fst (getArticles selectImage clock now syncNow response (Some ''trending'') st))) = 15 \<and>
      map viewCountOr0 (take 15 (fst (getArticles selectImage clock now syncNow response (Some ''trending'') st)))
        = take 15 (rev (sort (map viewCountOr0 (mapValues (articles st))))) \<and>
      sorted_wrt (\<lambda>a b. viewCountOr0 a > viewCountOr0 b)
        (take 15 (fst (getArticles selectImage clock now syncNow response (Some ''trending'') st))))"
proof -
  let ?stored = "mapValues (articles st)"
  let ?ranked = "sortWith compareViews ?stored"
  let ?feed = "getTrendingArticles st"
  have p1: "mset ?ranked = mset ?stored" by (rule mset_sortWith)
  have p2: "sorted_wrt rankedBefore ?ranked" by (rule sorted_sortWith)
  have p3: "take 15 ?feed = take 15 ?ranked" using trending_split by blast
  have p4: "\<forall>c \<in> set priorityCategories.
      filter (\<lambda>a. category a = c) (drop 15 ?feed)
        = take 2 (filter (\<lambda>a. category a = c) (drop 15 ?ranked))"
    using trending_bucket by blast
  have p5: "filter (\<lambda>a. category a \<notin> set priorityCategories) (drop 15 ?feed)
     = take 5 (filter (\<lambda>a. category a \<notin> set priorityCategories) (drop 15 ?ranked))"
    by (rule trending_others)
  have p6: "drop 15 ?feed
     = concat (map (\<lambda>c. filter (\<lambda>a. category a = c) (drop 15 ?feed)) priorityCategories) @
       filter (\<lambda>a. category a \<notin> set priorityCategories) (drop 15 ?feed)"
    by (rule trending_grouped)
  have "mset (map viewCountOr0 ?ranked) = mset (map viewCountOr0 ?stored)"
    using p1 by (metis mset_map)
  then have srt: "sort (map viewCountOr0 ?ranked) = sort (map viewCountOr0 ?stored)"
    by (metis properties_for_sort sorted_sort mset_sort)
  have "map viewCountOr0 ?ranked = rev (sort (map viewCountOr0 ?stored))"
    using views_of_ranked [OF p2] srt by simp
  then have "take 15 (map viewCountOr0 ?ranked) = take 15 (rev (sort (map viewCountOr0 ?stored)))"
    by (rule arg_cong)
  then have p7: "map viewCountOr0 (take 15 ?feed) = take 15 (rev (sort (map viewCountOr0 ?stored)))"
    using p3 by (simp only: take_map)
  have p8: "length (articles st) = 20 \<and> distinct (map viewCountOr0 ?stored) \<longrightarrow>
      length (take 15 ?feed) = 15 \<and>
      sorted_wrt (\<lambda>a b. viewCountOr0 a > viewCountOr0 b) (take 15 ?feed) \<and>
      (\<forall>a \<in> set (take 15 ?feed). \<forall>b \<in> set (drop 15 ?ranked). viewCountOr0 a > viewCountOr0 b)"
  proof (intro impI)
    assume h: "length (articles st) = 20 \<and> distinct (map viewCountOr0 ?stored)"
    have "length ?ranked = length ?stored" using p1 by (metis size_mset)
    then have len: "length ?ranked = 20" using h by (simp add: mapValues_def)
    have "distinct (map viewCountOr0 ?ranked)"
      using h \<open>mset (map viewCountOr0 ?ranked) = mset (map viewCountOr0 ?stored)\<close>
      by (metis mset_eq_imp_distinct_iff)
    then have "sorted_wrt (\<lambda>a b. viewCountOr0 a > viewCountOr0 b) ?ranked"
      using strictly_ranked [OF p2] by simp
    then have "sorted_wrt (\<lambda>a b. viewCountOr0 a > viewCountOr0 b) (take 15 ?ranked @ drop 15 ?ranked)"
      by simp
    then have "sorted_wrt (\<lambda>a b. viewCountOr0 a > viewCountOr0 b) (take 15 ?ranked) \<and>
       (\<forall>a \<in> set (take 15 ?ranked). \<forall>b \<in> set (drop 15 ?ranked). viewCountOr0 a > viewCountOr0 b)"
      unfolding sorted_wrt_append by blast
    then show "length (take 15 ?feed) = 15 \<and>
      sorted_wrt (\<lambda>a b. viewCountOr0 a > viewCountOr0 b) (take 15 ?feed) \<and>
      (\<forall>a \<in> set (take 15 ?feed). \<forall>b \<in> set (drop 15 ?ranked). viewCountOr0 a > viewCountOr0 b)"
      using p3 len by simp
  qed
  let ?G = "getArticles selectImage clock now syncNow response (Some ''trending'') st"
  have p9: "fst ?G = getTrendingArticles (snd ?G)" by (rule getArticles_trending)
  have n1: "snd ?G = (if syncsFirst now st then syncFromGoogleSheets selectImage clock syncNow response st else st)"
    by (simp add: getArticles_def syncsFirst_def Let_def truthy_def)
  have n2: "\<not> syncsFirst now st \<or> fetchArticles selectImage clock response = Inr [] \<longrightarrow>
      ?G = (getTrendingArticles st, st)"
  proof
    assume h: "\<not> syncsFirst now st \<or> fetchArticles selectImage clock response = Inr []"
    have "snd ?G = st"
    proof (cases "syncsFirst now st")
      case False
      then show ?thesis using n1 by simp
    next
      case True
      then have "fetchArticles selectImage clock response = Inr []" using h by simp
      then have "syncFromGoogleSheets selectImage clock syncNow response st = st"
        by (simp add: syncFromGoogleSheets_def syncFetched_def)
      then show ?thesis using n1 True by simp
    qed
    then show "?G = (getTrendingArticles st, st)" using p9 by (metis prod.collapse)
  qed
  have n3: "(\<not> syncsFirst now st \<or> fetchArticles selectImage clock response = Inr []) \<and>
    length (articles st) = 20 \<and> distinct (map viewCountOr0 ?stored) \<longrightarrow>
      length (take 15 (fst ?G)) = 15 \<and>
      map viewCountOr0 (take 15 (fst ?G)) = take 15 (rev (sort (map viewCountOr0 ?stored))) \<and>
      sorted_wrt (\<lambda>a b. viewCountOr0 a > viewCountOr0 b) (take 15 (fst ?G))"
  proof
    assume h: "(\<not> syncsFirst now st \<or> fetchArticles selectImage clock response = Inr []) \<and>
      length (articles st) = 20 \<and> distinct (map viewCountOr0 ?stored)"
    then have "fst ?G = ?feed" using n2 by simp
    then show "length (take 15 (fst ?G)) = 15 \<and>
      map viewCountOr0 (take 15 (fst ?G)) = take 15 (rev (sort (map viewCountOr0 ?stored))) \<and>
      sorted_wrt (\<lambda>a b. viewCountOr0 a > viewCountOr0 b) (take 15 (fst ?G))"
      using h p7 p8 by simp
  qed
  show ?thesis using p1 p2 p3 p4 p5 p6 p7 p8 p9 n1 n2 n3 by blast
qed

theorem trending_feed_witness:
  "length (articles twentyStore) = 20 \<and>
   distinct (map viewCountOr0 (mapValues (articles twentyStore))) \<and>
   \<not> syncsFirst 2000 twentyStore \<and>
   map viewCountOr0 (take 15 (getTrendingArticles twentyStore))
     = [22, 21, 20, 19, 18, 17, 15, 14, 13, 12, 11, 10, 8, 7, 6] \<and>
   sorted_wrt (\<lambda>a b. viewCountOr0 a > viewCountOr0 b) (take 15 (getTrendingArticles twentyStore)) \<and>
   map articleId (drop 15 (getTrendingArticles twentyStore)) = [Num 4, Num 7, Num 17, Num 20] \<and>
   map viewCountOr0
     (take 15 (fst (getArticles constImage fixedClock 2000 2000 (Throws TypeError) (Some ''trending'') twentyStore)))
     = [22, 21, 20, 19, 18, 17, 15, 14, 13, 12, 11, 10, 8, 7, 6] \<and>
   getArticles constImage fixedClock 2000 2000 (Throws TypeError) (Some ''trending'') twentyStore
     = (getTrendingArticles twentyStore, twentyStore)"
proof -
  have h1: "length (articles twentyStore) = 20" by code_simp
  have h2: "distinct (map viewCountOr0 (mapValues (articles twentyStore)))" by code_simp
  have h3: "\<not> syncsFirst 2000 twentyStore" by code_simp
  have v: "map viewCountOr0 (take 15 (getTrendingArticles twentyStore))
     = [22, 21, 20, 19, 18, 17, 15, 14, 13, 12, 11, 10, 8, 7, 6]" by code_simp
  have t: "map articleId (drop 15 (getTrendingArticles twentyStore)) = [Num 4, Num 7, Num 17, Num 20]"
    by code_simp
  note T = trending_feed [where st = twentyStore and selectImage = constImage and clock = fixedClock
      and now = 2000 and syncNow = 2000 and response = "Throws TypeError"]
  from T h1 h2
  have s: "sorted_wrt (\<lambda>a b. viewCountOr0 a > viewCountOr0 b) (take 15 (getTrendingArticles twentyStore))"
    by blast
  from T h3
  have g: "getArticles constImage fixedClock 2000 2000 (Throws TypeError) (Some ''trending'') twentyStore
     = (getTrendingArticles twentyStore, twentyStore)" by blast
  then have gv: "map viewCountOr0
     (take 15 (fst (getArticles constImage fixedClock 2000 2000 (Throws TypeError) (Some ''trending'') twentyStore)))
     = [22, 21, 20, 19, 18, 17, 15, 14, 13, 12, 11, 10, 8, 7, 6]" using v by simp
  show ?thesis using h1 h2 h3 v s t gv g by blast
qed

end
